theory Spec2Isabelle
  imports Complex_Main "HOL-Library.AList" "HOL-Library.Char_ord" "HOL-Library.List_Lexorder"
    "HOL-Library.Multiset"
begin

section \<open>Strings as the scripts use them\<close>

text \<open>
  Python strings are modelled as \<^typ>\<open>string\<close> restricted to ASCII. Python compares
  strings by code point, which is the lexicographic order on character lists.
\<close>

definition is_space :: "char \<Rightarrow> bool" where
  \<comment> \<open>the ASCII characters for which \<^verbatim>\<open>str.isspace()\<close> holds\<close>
  "is_space c = (c \<in> set [CHR '' '', CHR 0x09, CHR 0x0A, CHR 0x0B, CHR 0x0C, CHR 0x0D,
                           CHR 0x1C, CHR 0x1D, CHR 0x1E, CHR 0x1F])"

definition is_digit :: "char \<Rightarrow> bool" where
  "is_digit c = (c \<in> set ''0123456789'')"

definition lstrip :: "string \<Rightarrow> string" where
  "lstrip s = dropWhile is_space s"

definition rstrip :: "string \<Rightarrow> string" where
  "rstrip s = rev (dropWhile is_space (rev s))"

definition strip :: "string \<Rightarrow> string" where
  \<comment> \<open>\<^verbatim>\<open>s.strip()\<close>\<close>
  "strip s = rstrip (lstrip s)"

definition startswith :: "string \<Rightarrow> string \<Rightarrow> bool" where
  \<comment> \<open>\<^verbatim>\<open>s.startswith(p)\<close>, written \<open>startswith p s\<close>\<close>
  "startswith p s = (take (length p) s = p)"

fun contains :: "string \<Rightarrow> string \<Rightarrow> bool" where
  \<comment> \<open>\<^verbatim>\<open>p in s\<close>, written \<open>contains p s\<close>\<close>
  "contains p [] = (p = [])"
| "contains p (c # cs) = (startswith p (c # cs) \<or> contains p cs)"

definition lower_char :: "char \<Rightarrow> char" where
  "lower_char c =
     (if CHR ''A'' \<le> c \<and> c \<le> CHR ''Z'' then char_of (of_char c + (32::nat)) else c)"

definition lower :: "string \<Rightarrow> string" where
  \<comment> \<open>\<^verbatim>\<open>s.lower()\<close>\<close>
  "lower s = map lower_char s"

definition basename :: "string \<Rightarrow> string" where
  \<comment> \<open>\<^verbatim>\<open>os.path.basename\<close>: what follows the last slash\<close>
  "basename p = rev (takeWhile (\<lambda>c. c \<noteq> CHR ''/'') (rev p))"

definition digit_val :: "char \<Rightarrow> nat" where
  "digit_val c = of_char c - 48"

definition nat_of_digits :: "string \<Rightarrow> nat" where
  "nat_of_digits ds = foldl (\<lambda>n c. 10 * n + digit_val c) 0 ds"

fun digit_groups :: "string \<Rightarrow> bool" where
  \<comment> \<open>digits, single underscores allowed between two digits (Python's integer literals)\<close>
  "digit_groups [] = False"
| "digit_groups [c] = is_digit c"
| "digit_groups (c # d # cs) =
     (is_digit c \<and> (if d = CHR ''_'' then digit_groups cs else digit_groups (d # cs)))"

definition py_int :: "string \<Rightarrow> int option" where
  \<comment> \<open>\<^verbatim>\<open>int(s)\<close> in base 10; \<open>None\<close> is ValueError\<close>
  "py_int s =
     (let t = strip s;
          neg = startswith ''-'' t;
          body = (if startswith ''-'' t \<or> startswith ''+'' t then tl t else t)
      in if digit_groups body
         then Some ((if neg then - 1 else 1) * int (nat_of_digits (filter is_digit body)))
         else None)"

fun split_on :: "char \<Rightarrow> string \<Rightarrow> string list" where
  \<comment> \<open>\<^verbatim>\<open>s.split(c)\<close> for a one-character separator\<close>
  "split_on c [] = [[]]"
| "split_on c (x # xs) =
     (if x = c then [] # split_on c xs
      else (case split_on c xs of [] \<Rightarrow> [[x]] | w # ws \<Rightarrow> (x # w) # ws))"

section \<open>The popularity bar chart (reports/bubblerap2/plot\_popularity.py)\<close>

text \<open>
  The table that \<^verbatim>\<open>pd.read_csv(filename, index_col=0)\<close> returns: the row labels (as
  texts), the names of the value columns, and one row of cell texts per label, each row
  with one cell per column. A sample of the numeric row is a rational, \<open>None\<close> being
  NaN: an integer of 64 bits when the row is read as integers, a binary64 number
  otherwise. Infinities are outside the model. Three operations of pandas on these
  numbers are parameters of the model:
  \<^item> \<open>to_numeric\<close>, the conversion of one cell to a sample (\<open>None\<close>: NaN);
  \<^item> \<open>fsub b a\<close>, the difference of two samples as \<^verbatim>\<open>diff()\<close> computes it, a binary64
    number (for an integer row the difference of the integers converted to binary64,
    for a float row the float subtraction);
  \<^item> \<open>f64\<close>, the conversion of a sample to binary64, which the assignment of line 46
    into the float series performs.
\<close>

record dataframe =
  index :: "string list"
  columns :: "string list"
  cells :: "string list list"

datatype load_error = FileNotFound | OtherLoadError

datatype pop_outcome =
    ErrFileNotFound
  | ErrLoadingFile
  | ErrNodeNotFound string "string list"
  | ErrParsingHeaders
  | ErrNotNumeric
  | UncaughtTypeError
  | Plot "nat list" "int list"

definition time_point :: "string \<Rightarrow> int option" where
  \<comment> \<open>\<^verbatim>\<open>int(str(col).split('@')[1])\<close>; \<open>None\<close> is IndexError or ValueError\<close>
  "time_point col =
     (case split_on (CHR ''@'') col of
        _ # t # _ \<Rightarrow> py_int t
      | _ \<Rightarrow> None)"

fun time_points :: "string list \<Rightarrow> int list option" where
  "time_points [] = Some []"
| "time_points (c # cs) =
     (case time_point c of
        None \<Rightarrow> None
      | Some t \<Rightarrow> (case time_points cs of None \<Rightarrow> None | Some ts \<Rightarrow> Some (t # ts)))"

fun diff_from :: "(rat \<Rightarrow> rat \<Rightarrow> rat) \<Rightarrow> rat option \<Rightarrow> rat option list \<Rightarrow> rat option list" where
  \<comment> \<open>the differences of a series after a given previous sample; NaN propagates\<close>
  "diff_from fsub prev [] = []"
| "diff_from fsub prev (x # xs) =
     (case (prev, x) of
        (Some a, Some b) \<Rightarrow> Some (fsub b a)
      | _ \<Rightarrow> None) # diff_from fsub x xs"

definition diff :: "(rat \<Rightarrow> rat \<Rightarrow> rat) \<Rightarrow> rat option list \<Rightarrow> rat option list" where
  \<comment> \<open>\<^verbatim>\<open>Series.diff()\<close>: NaN first, then each sample minus its predecessor\<close>
  "diff fsub xs = (case xs of [] \<Rightarrow> [] | x # rest \<Rightarrow> None # diff_from fsub x rest)"

definition fillna0 :: "rat option \<Rightarrow> rat" where
  "fillna0 v = (case v of None \<Rightarrow> 0 | Some r \<Rightarrow> r)"

definition trunc :: "rat \<Rightarrow> int" where
  \<comment> \<open>rounding toward zero\<close>
  "trunc r = (if 0 \<le> r then \<lfloor>r\<rfloor> else \<lceil>r\<rceil>)"

definition in_int64 :: "int \<Rightarrow> bool" where
  "in_int64 n = (- (2 ^ 63) \<le> n \<and> n < 2 ^ 63)"

definition astype_int :: "rat \<Rightarrow> int" where
  \<comment> \<open>\<^verbatim>\<open>astype(int)\<close> on a float: the conversion to a 64-bit integer, which rounds toward
      zero; for a value beyond the 64-bit range the conversion yields the least 64-bit
      integer (what the conversion instruction of x86-64 gives; C leaves it undefined)\<close>
  "astype_int r = (if in_int64 (trunc r) then trunc r else - (2 ^ 63))"

definition window_popularity ::
  "(rat \<Rightarrow> rat) \<Rightarrow> (rat \<Rightarrow> rat \<Rightarrow> rat) \<Rightarrow> rat option list \<Rightarrow> int list"
where
  \<comment> \<open>lines 45 to 48, for a series that is not empty: the differences, the first sample
      written into the float series at position 0, NaN replaced by 0, the conversion to
      integers\<close>
  "window_popularity f64 fsub cumulative =
     map (astype_int \<circ> fillna0) ((diff fsub cumulative)[0 := map_option f64 (hd cumulative)])"

definition window_labels :: "int list \<Rightarrow> nat list" where
  \<comment> \<open>the labels are the window numbers 1, 2, ..., one per time point\<close>
  "window_labels tps = map Suc [0..<length tps]"

definition parse_decimal :: "string \<Rightarrow> rat option" where
  \<comment> \<open>A cell converter for running the model on concrete tables: the exact value of a
      plain decimal literal (sign, digits, optional fraction), NaN for any other text.\<close>
  "parse_decimal s =
     (let t = strip s;
          neg = startswith ''-'' t;
          body = (if neg then tl t else t);
          ip = takeWhile is_digit body;
          rest = dropWhile is_digit body;
          fp = tl rest;
          sgn = (if neg then - 1 else 1)
      in if rest = [] then (if ip = [] then None else Some (sgn * of_nat (nat_of_digits ip)))
         else if hd rest = CHR ''.'' \<and> list_all is_digit fp \<and> (ip \<noteq> [] \<or> fp \<noteq> [])
         then Some (sgn * (of_nat (nat_of_digits ip) + of_nat (nat_of_digits fp) / 10 ^ length fp))
         else None)"

definition plot_node_popularity ::
  "(string \<Rightarrow> rat option) \<Rightarrow> (rat \<Rightarrow> rat) \<Rightarrow> (rat \<Rightarrow> rat \<Rightarrow> rat) \<Rightarrow> load_error + dataframe
     \<Rightarrow> string \<Rightarrow> pop_outcome"
where
  "plot_node_popularity to_numeric f64 fsub loaded node_id_to_plot =
     (case loaded of
        Inl FileNotFound \<Rightarrow> ErrFileNotFound
      | Inl OtherLoadError \<Rightarrow> ErrLoadingFile
      | Inr df \<Rightarrow>
          if node_id_to_plot \<notin> set (index df)
          then ErrNodeNotFound node_id_to_plot (index df)
          else
            (case filter (\<lambda>(l, row). l = node_id_to_plot) (zip (index df) (cells df)) of
               [(l, node_data)] \<Rightarrow>
                 (let cumulative_popularity = map to_numeric node_data
                  in case time_points (columns df) of
                       None \<Rightarrow> ErrParsingHeaders
                     | Some tps \<Rightarrow>
                         if list_all (\<lambda>v. v = None) cumulative_popularity then ErrNotNumeric
                         else Plot (window_labels tps)
                                (window_popularity f64 fsub cumulative_popularity))
             | _ \<Rightarrow> UncaughtTypeError))"

text \<open>
  The delta series as the specification words it, for comparison with
  \<^const>\<open>window_popularity\<close>: a missing sample counts as zero, the first window is the first
  sample, every later window is a sample minus the one before it.
\<close>

definition spec_delta_series :: "rat option list \<Rightarrow> rat list" where
  "spec_delta_series cumulative =
     map (\<lambda>i. if i = 0 then fillna0 (cumulative ! 0)
              else fillna0 (cumulative ! i) - fillna0 (cumulative ! (i - 1)))
       [0..<length cumulative]"

definition example_table :: "string list \<Rightarrow> dataframe" where
  \<comment> \<open>the one-row table with header \<^verbatim>\<open>Pop@3600,Pop@7200,...\<close> and row \<^verbatim>\<open>A1\<close>\<close>
  "example_table row =
     \<lparr>index = [''A1''],
      columns = take (length row) [''Pop@3600'', ''Pop@7200'', ''Pop@10800''],
      cells = [row]\<rparr>"

section \<open>What the two comparison scripts share\<close>

text \<open>
  A metric value is a Python float: a finite number, an infinity or NaN. The conversion
  \<^verbatim>\<open>float(text)\<close> is a parameter \<open>flt\<close> of the parsers, \<open>None\<close> being ValueError.
  The file system is a parameter too: \<open>read path\<close> is the list of the lines of the
  file (no line holds a line feed except at its end), \<open>None\<close> when opening or reading
  raises. A dict is an association list in insertion order, with \<^const>\<open>map_of\<close> as
  lookup and \<^const>\<open>AList.update\<close> as assignment. Of the printed text the model keeps
  the warnings, the errors and the "Processing" lines, as values of \<open>message\<close>.
\<close>

datatype pyfloat = Fin rat | PosInf | NegInf | NaN

datatype message =
    ErrNoFilesFound
  | Processing string
  | WarnFilename string
  | ErrReading string
  | WarnNotFloat string string string
  | ErrNoData
  | ErrNoScenarios string
  | ErrScenariosUndetermined
  | WarnMissing string nat string
  | NotFoundSkipping string string
  | WarnBaseType string
  | WarnVariant string
  | WarnScenario string
  | WarnNoMetrics string
  | ErrNoProphetTypes
  | NoDataForMetric string

datatype 'fig outcome = Exit "message list" | Shown 'fig "message list"

type_synonym metrics = "(string \<times> pyfloat) list"

definition metric_keys :: "string list" where
  "metric_keys = [''delivery_prob'', ''overhead_ratio'', ''latency_avg'', ''latency_med'',
                  ''buffertime_avg'', ''buffertime_med'']"

definition example_float :: "string \<Rightarrow> pyfloat option" where
  \<comment> \<open>A float conversion for running the model on concrete files: what \<^verbatim>\<open>float()\<close>
      gives on the texts nan, inf and infinity (in either case, with an optional sign)
      and on plain decimal literals, ValueError for any other text.\<close>
  "example_float s =
     (let t = lower (strip s);
          u = (if startswith ''-'' t \<or> startswith ''+'' t then tl t else t)
      in if u = ''nan'' then Some NaN
         else if u = ''inf'' \<or> u = ''infinity''
         then Some (if startswith ''-'' t then NegInf else PosInf)
         else map_option Fin (parse_decimal s))"

fun figures :: "'fig outcome \<Rightarrow> 'fig option" where
  "figures (Exit msgs) = None"
| "figures (Shown fig msgs) = Some fig"

fun printed :: "'fig outcome \<Rightarrow> message list" where
  "printed (Exit msgs) = msgs"
| "printed (Shown fig msgs) = msgs"

definition processed :: "message list \<Rightarrow> string list" where
  \<comment> \<open>the files handed to the parser, in order, as the "Processing" lines tell\<close>
  "processed msgs = concat (map (\<lambda>m. case m of Processing f \<Rightarrow> [f] | _ \<Rightarrow> []) msgs)"

definition isnan :: "pyfloat \<Rightarrow> bool" where
  "isnan v = (v = NaN)"

definition digits_then_underscore :: "string \<Rightarrow> string option" where
  \<comment> \<open>the regular expression \<^verbatim>\<open>(\d+)_\<close> at the start of a text: its group\<close>
  "digits_then_underscore s =
     (let ds = takeWhile is_digit s
      in if ds \<noteq> [] \<and> startswith ''_'' (dropWhile is_digit s) then Some ds else None)"

section \<open>The glob-based comparison (reports/prophetcomparison/plot.py)\<close>

type_synonym data1 = "(string \<times> (nat \<times> metrics) list) list"

definition match_filename :: "string \<Rightarrow> (string \<times> string) option" where
  \<comment> \<open>\<^verbatim>\<open>re.match(r'(prophetrandomtuned|prophettuned)_scenario(\d+)_', basename)\<close>:
      the two groups\<close>
  "match_filename b =
     (let alt = (\<lambda>p. if startswith (p @ ''_scenario'') b
                      then map_option (Pair p) (digits_then_underscore (drop (length p + 9) b))
                      else None)
      in case alt ''prophetrandomtuned'' of
           Some g \<Rightarrow> Some g
         | None \<Rightarrow> alt ''prophettuned'')"

definition match_kv :: "string \<Rightarrow> (string \<times> string) option" where
  \<comment> \<open>\<^verbatim>\<open>re.match(r'([^:]+):\s*(.*)', line)\<close>: the two groups\<close>
  "match_kv line =
     (let g1 = takeWhile (\<lambda>c. c \<noteq> CHR '':'') line;
          rest = dropWhile (\<lambda>c. c \<noteq> CHR '':'') line
      in if g1 = [] \<or> rest = [] then None
         else Some (g1, takeWhile (\<lambda>c. c \<noteq> CHR 0x0A) (dropWhile is_space (tl rest))))"

definition set_metric :: "string \<Rightarrow> nat \<Rightarrow> string \<Rightarrow> pyfloat \<Rightarrow> data1 \<Rightarrow> data1" where
  \<comment> \<open>\<^verbatim>\<open>data[protocol_name][scenario_num][key] = v\<close>, both outer entries being there\<close>
  "set_metric p sc k v d = AList.map_entry p (AList.map_entry sc (AList.update k v)) d"

definition key_value1 :: "string \<Rightarrow> (string \<times> string) option" where
  \<comment> \<open>lines 59 to 65: the key and the value text that a line yields, if any\<close>
  "key_value1 raw =
     (let line = strip raw
      in if CHR '':'' \<in> set line
         then (case match_kv line of
                 Some (g1, g2) \<Rightarrow> Some (strip g1, strip g2)
               | None \<Rightarrow> None)
         else None)"

definition parse_line1 ::
  "(string \<Rightarrow> pyfloat option) \<Rightarrow> string \<Rightarrow> string \<Rightarrow> nat \<Rightarrow> data1 \<times> message list \<Rightarrow> string
     \<Rightarrow> data1 \<times> message list"
where
  \<comment> \<open>the body of the loop over the lines, lines 59 to 74\<close>
  "parse_line1 flt bn p sc st raw =
     (case key_value1 raw of
        None \<Rightarrow> st
      | Some (key, value_str) \<Rightarrow>
          if key \<in> set metric_keys
          then (case flt value_str of
                  Some x \<Rightarrow> (set_metric p sc key x (fst st), snd st)
                | None \<Rightarrow> (set_metric p sc key NaN (fst st),
                           snd st @ [WarnNotFloat value_str key bn]))
          else st)"

definition protocol_name_of :: "string \<Rightarrow> string" where
  \<comment> \<open>line 40\<close>
  "protocol_name_of g1 = (if g1 = ''prophetrandomtuned'' then ''Prophet Random'' else ''Prophet'')"

definition init_entries :: "string \<Rightarrow> nat \<Rightarrow> data1 \<Rightarrow> data1" where
  \<comment> \<open>lines 44 to 47: the empty dicts for a protocol and a scenario not yet seen\<close>
  "init_entries protocol_name scenario_num d =
     (let d1 = (if protocol_name \<in> fst ` set d then d else AList.update protocol_name [] d)
      in AList.map_entry protocol_name
           (\<lambda>scs. if scenario_num \<in> fst ` set scs then scs
                  else AList.update scenario_num [] scs) d1)"

definition process_file1 ::
  "(string \<Rightarrow> pyfloat option) \<Rightarrow> (string \<Rightarrow> string list option) \<Rightarrow> data1 \<times> message list
     \<Rightarrow> string \<Rightarrow> data1 \<times> message list"
where
  \<comment> \<open>the body of the loop over the files, lines 30 to 74\<close>
  "process_file1 flt read st filename =
     (let bn = basename filename;
          msgs = snd st @ [Processing bn]
      in case match_filename bn of
           None \<Rightarrow> (fst st, msgs @ [WarnFilename bn])
         | Some (g1, g2) \<Rightarrow>
             (let protocol_name = protocol_name_of g1;
                  scenario_num = nat_of_digits g2;
                  d = init_entries protocol_name scenario_num (fst st)
              in case read filename of
                   None \<Rightarrow> (d, msgs @ [ErrReading filename])
                 | Some lines \<Rightarrow>
                     foldl (parse_line1 flt bn protocol_name scenario_num) (d, msgs) lines))"

definition parse_files1 ::
  "(string \<Rightarrow> pyfloat option) \<Rightarrow> (string \<Rightarrow> string list option) \<Rightarrow> string list
     \<Rightarrow> data1 \<times> message list"
where
  \<comment> \<open>lines 28 to 74: the files are sorted, then parsed in that order\<close>
  "parse_files1 flt read report_files = foldl (process_file1 flt read) ([], []) (sort report_files)"

definition get_value :: "data1 \<Rightarrow> string \<Rightarrow> nat \<Rightarrow> string \<Rightarrow> pyfloat" where
  \<comment> \<open>\<^verbatim>\<open>data.get(proto, {}).get(sc, {}).get(metric_key, np.nan)\<close>\<close>
  "get_value d proto sc metric_key =
     (case map_of d proto of
        None \<Rightarrow> NaN
      | Some scs \<Rightarrow>
          (case map_of scs sc of
             None \<Rightarrow> NaN
           | Some m \<Rightarrow> (case map_of m metric_key of None \<Rightarrow> NaN | Some v \<Rightarrow> v)))"

definition scenario_step ::
  "data1 \<Rightarrow> string \<Rightarrow> string \<Rightarrow> pyfloat list \<times> message list \<Rightarrow> nat \<Rightarrow> pyfloat list \<times> message list"
where
  \<comment> \<open>lines 122 to 127\<close>
  "scenario_step d proto metric_key acc sc =
     (let v = get_value d proto sc metric_key;
          warning_msg = WarnMissing proto sc metric_key;
          ws = (if isnan v \<and> warning_msg \<notin> set (snd acc) then snd acc @ [warning_msg]
                else snd acc)
      in (fst acc @ [v], ws))"

definition metric_step ::
  "data1 \<Rightarrow> nat list \<Rightarrow> string \<Rightarrow> (string \<times> pyfloat list) list \<times> message list \<Rightarrow> string
     \<Rightarrow> (string \<times> pyfloat list) list \<times> message list"
where
  \<comment> \<open>lines 119 to 128\<close>
  "metric_step d scenarios proto acc metric_key =
     (let r = foldl (scenario_step d proto metric_key) ([], snd acc) scenarios
      in (AList.update metric_key (fst r) (fst acc), snd r))"

definition proto_step ::
  "data1 \<Rightarrow> nat list \<Rightarrow> (string \<times> (string \<times> pyfloat list) list) list \<times> message list \<Rightarrow> string
     \<Rightarrow> (string \<times> (string \<times> pyfloat list) list) list \<times> message list"
where
  \<comment> \<open>lines 117 to 128\<close>
  "proto_step d scenarios acc proto =
     (let r = foldl (metric_step d scenarios proto) ([], snd acc) metric_keys
      in (AList.update proto (fst r) (fst acc), snd r))"

record figure1 =
  protocols :: "string list"
  scenarios :: "nat list"
  plot_data :: "(string \<times> (string \<times> pyfloat list) list) list"
  missing_data_warnings :: "message list"

definition main1 ::
  "(string \<Rightarrow> pyfloat option) \<Rightarrow> (string \<Rightarrow> string list option) \<Rightarrow> string list \<Rightarrow> figure1 outcome"
where
  \<comment> \<open>the script, \<open>report_files\<close> being what \<^verbatim>\<open>glob.glob\<close> returns; each axis \<open>i\<close>
      draws, for each protocol, the line of \<open>plot_data\<close> for metric \<open>i\<close> over \<open>scenarios\<close>\<close>
  "main1 flt read report_files =
     (if report_files = [] then Exit [ErrNoFilesFound]
      else
        (let st = parse_files1 flt read report_files;
             d = fst st
         in if d = [] then Exit (snd st @ [ErrNoData])
            else
              (let protos = sort (map fst d)
               in case map_of d (hd protos) of
                    None \<Rightarrow> Exit (snd st @ [ErrScenariosUndetermined])
                  | Some scs \<Rightarrow>
                      if scs = [] then Exit (snd st @ [ErrNoScenarios (hd protos)])
                      else
                        (let scens = sort (map fst scs);
                             r = foldl (proto_step d scens) ([], []) protos
                         in Shown \<lparr>protocols = protos, scenarios = scens, plot_data = fst r,
                                    missing_data_warnings = snd r\<rparr>
                                  (snd st @ snd r)))))"


section \<open>The comparison over a list of file names (reports/prophetcomparison2/plot.py)\<close>

record parsed_file =
  prophet_type :: string
  scenario_number :: nat
  metrics :: metrics

type_synonym plotting_data = "(string \<times> (string \<times> (nat \<times> pyfloat) list) list) list"

definition DATA_FILES :: "string list" where
  "DATA_FILES =
     [''HaggleProphet100_MessageStatsReport.txt'',
      ''HaggleProphet300_MessageStatsReport.txt'',
      ''HaggleProphet500_MessageStatsReport.txt'',
      ''HaggleRandomProphet100_MessageStatsReport.txt'',
      ''HaggleRandomProphet300_MessageStatsReport.txt'',
      ''HaggleRandomProphet500_MessageStatsReport.txt'',
      ''RealityProphet100_MessageStatsReport.txt'',
      ''RealityProphet300_MessageStatsReport.txt'',
      ''RealityProphet500_MessageStatsReport.txt'',
      ''RealityRandomProphet100_MessageStatsReport.txt'',
      ''RealityRandomProphet300_MessageStatsReport.txt'',
      ''RealityRandomProphet500_MessageStatsReport.txt'']"

definition scenario_here :: "string \<Rightarrow> string option" where
  \<comment> \<open>\<^verbatim>\<open>(?:RandomProphet|Prophet)(\d+)_\<close>, letters in either case, at the start of a text\<close>
  "scenario_here s =
     (let alt = (\<lambda>p. if startswith p (lower s) then digits_then_underscore (drop (length p) s)
                      else None)
      in case alt ''randomprophet'' of
           Some ds \<Rightarrow> Some ds
         | None \<Rightarrow> alt ''prophet'')"

fun match_scenario :: "string \<Rightarrow> string option" where
  \<comment> \<open>\<^verbatim>\<open>re.search(r"(?:RandomProphet|Prophet)(\d+)_", filename, re.IGNORECASE)\<close>: the
      group of the leftmost match\<close>
  "match_scenario [] = None"
| "match_scenario (c # cs) =
     (case scenario_here (c # cs) of
        Some ds \<Rightarrow> Some ds
      | None \<Rightarrow> match_scenario cs)"

definition key_value2 :: "string \<Rightarrow> (string \<times> string) option" where
  \<comment> \<open>lines 69 to 73: the key and the value text that a line yields, if any\<close>
  "key_value2 raw =
     (let line = strip raw
      in if CHR '':'' \<in> set line
         then Some (strip (takeWhile (\<lambda>c. c \<noteq> CHR '':'') line),
                    strip (tl (dropWhile (\<lambda>c. c \<noteq> CHR '':'') line)))
         else None)"

definition parse_line2 ::
  "(string \<Rightarrow> pyfloat option) \<Rightarrow> string \<Rightarrow> metrics \<times> message list \<Rightarrow> string
     \<Rightarrow> metrics \<times> message list"
where
  \<comment> \<open>the body of the loop over the lines, lines 69 to 79\<close>
  "parse_line2 flt filename st raw =
     (case key_value2 raw of
        None \<Rightarrow> st
      | Some (key, val) \<Rightarrow>
          if key \<in> set metric_keys
          then (case flt val of
                  Some x \<Rightarrow> (AList.update key x (fst st), snd st)
                | None \<Rightarrow> (AList.update key NaN (fst st),
                           snd st @ [WarnNotFloat val key filename]))
          else st)"

definition parse_message_stats_file ::
  "(string \<Rightarrow> pyfloat option) \<Rightarrow> (string \<Rightarrow> string list option) \<Rightarrow> string
     \<Rightarrow> parsed_file option \<times> message list"
where
  \<comment> \<open>the returned record (\<open>None\<close> as in the source) and what was printed\<close>
  "parse_message_stats_file flt read filepath =
     (let filename = basename filepath;
          fn_lower = lower filename
      in if \<not> contains ''haggle'' fn_lower \<and> \<not> contains ''reality'' fn_lower
         then (None, [WarnBaseType filename])
         else if \<not> contains ''randomprophet'' fn_lower \<and> \<not> contains ''prophet'' fn_lower
         then (None, [WarnVariant filename])
         else
           (let base_type_str = (if contains ''haggle'' fn_lower then ''Haggle'' else ''Reality'');
                prophet_variant_str =
                  (if contains ''randomprophet'' fn_lower then ''Random Prophet'' else ''Prophet'')
            in case match_scenario filename of
                 None \<Rightarrow> (None, [WarnScenario filename])
               | Some ds \<Rightarrow>
                   (case read filepath of
                      None \<Rightarrow> (None, [ErrReading filepath])
                    | Some lines \<Rightarrow>
                        (let r = foldl (parse_line2 flt filename) ([], []) lines
                         in if fst r = [] then (None, snd r @ [WarnNoMetrics filename])
                            else (Some \<lparr>prophet_type = base_type_str @ '' '' @ prophet_variant_str,
                                         scenario_number = nat_of_digits ds,
                                         metrics = fst r\<rparr>, snd r)))))"

definition isabs :: "string \<Rightarrow> bool" where
  "isabs p = startswith ''/'' p"

definition join :: "string \<Rightarrow> string \<Rightarrow> string" where
  \<comment> \<open>\<^verbatim>\<open>os.path.join(d, p)\<close>\<close>
  "join d p = (if isabs p then p
               else if d = [] \<or> last d = CHR ''/'' then d @ p
               else d @ ''/'' @ p)"

definition resolve :: "string \<Rightarrow> string \<Rightarrow> string" where
  \<comment> \<open>lines 110 to 113\<close>
  "resolve script_dir file_entry =
     (if isabs file_entry then file_entry else join script_dir file_entry)"

definition process_entry ::
  "(string \<Rightarrow> pyfloat option) \<Rightarrow> (string \<Rightarrow> bool) \<Rightarrow> (string \<Rightarrow> string list option) \<Rightarrow> string
     \<Rightarrow> parsed_file list \<times> message list \<Rightarrow> string \<Rightarrow> parsed_file list \<times> message list"
where
  \<comment> \<open>the body of the loop over \<^verbatim>\<open>DATA_FILES\<close>, lines 110 to 122\<close>
  "process_entry flt exists read script_dir st file_entry =
     (let filepath = resolve script_dir file_entry
      in if \<not> exists filepath then (fst st, snd st @ [NotFoundSkipping file_entry filepath])
         else
           (let r = parse_message_stats_file flt read filepath;
                msgs = snd st @ [Processing filepath] @ snd r
            in case fst r of
                 None \<Rightarrow> (fst st, msgs)
               | Some parsed_file_data \<Rightarrow> (fst st @ [parsed_file_data], msgs)))"

definition parse_entries ::
  "(string \<Rightarrow> pyfloat option) \<Rightarrow> (string \<Rightarrow> bool) \<Rightarrow> (string \<Rightarrow> string list option) \<Rightarrow> string
     \<Rightarrow> string list \<Rightarrow> parsed_file list \<times> message list"
where
  "parse_entries flt exists read script_dir data_files =
     foldl (process_entry flt exists read script_dir) ([], []) data_files"

definition append_point :: "string \<Rightarrow> nat \<Rightarrow> plotting_data \<Rightarrow> string \<times> pyfloat \<Rightarrow> plotting_data" where
  \<comment> \<open>\<^verbatim>\<open>plotting_data[prophet_type][metric_key].append((scenario, value))\<close> on the
      nested defaultdict\<close>
  "append_point pt sc pd kv =
     AList.map_default pt [(fst kv, [(sc, snd kv)])]
       (AList.map_default (fst kv) [(sc, snd kv)] (\<lambda>l. l @ [(sc, snd kv)])) pd"

definition add_item :: "plotting_data \<Rightarrow> parsed_file \<Rightarrow> plotting_data" where
  \<comment> \<open>lines 131 to 134\<close>
  "add_item pd item = foldl (append_point (prophet_type item) (scenario_number item)) pd (metrics item)"

definition sort_series :: "plotting_data \<Rightarrow> plotting_data" where
  \<comment> \<open>lines 136 to 138; \<^verbatim>\<open>list.sort\<close> is stable, as \<^const>\<open>sort_key\<close> is\<close>
  "sort_series pd = map (\<lambda>(pt, ms). (pt, map (\<lambda>(mk, l). (mk, sort_key fst l)) ms)) pd"

definition reshape :: "parsed_file list \<Rightarrow> plotting_data" where
  "reshape all_parsed_data = sort_series (foldl add_item [] all_parsed_data)"

definition series_of :: "plotting_data \<Rightarrow> string \<Rightarrow> string \<Rightarrow> (nat \<times> pyfloat) list" where
  \<comment> \<open>the list under a type and a metric, empty when either key is missing\<close>
  "series_of pd pt mk =
     (case map_of pd pt of
        None \<Rightarrow> []
      | Some ms \<Rightarrow> (case map_of ms mk of None \<Rightarrow> [] | Some l \<Rightarrow> l))"

record figure2 =
  metric :: string
  lines :: "(string \<times> nat list \<times> pyfloat list) list"
  xticks :: "nat list"

definition metric_lines :: "plotting_data \<Rightarrow> string list \<Rightarrow> string \<Rightarrow> (string \<times> nat list \<times> pyfloat list) list" where
  \<comment> \<open>lines 149 to 153: one line per type that has points for the metric\<close>
  "metric_lines pd types mk =
     map (\<lambda>pt. (pt, map fst (series_of pd pt mk), map snd (series_of pd pt mk)))
       (filter (\<lambda>pt. series_of pd pt mk \<noteq> []) types)"

definition plot_metric :: "plotting_data \<Rightarrow> string list \<Rightarrow> figure2 list \<times> message list \<Rightarrow> string
     \<Rightarrow> figure2 list \<times> message list" where
  \<comment> \<open>the body of the loop over the metrics, lines 146 to 176\<close>
  "plot_metric pd types acc mk =
     (let ls = metric_lines pd types mk
      in if ls = [] then (fst acc, snd acc @ [NoDataForMetric mk])
         else (fst acc @ [\<lparr>metric = mk, lines = ls,
                            xticks = sort (remdups (concat (map (\<lambda>l. fst (snd l)) ls)))\<rparr>],
               snd acc))"

definition main2 ::
  "(string \<Rightarrow> pyfloat option) \<Rightarrow> (string \<Rightarrow> bool) \<Rightarrow> (string \<Rightarrow> string list option) \<Rightarrow> string
     \<Rightarrow> string list \<Rightarrow> figure2 list outcome"
where
  \<comment> \<open>the script, for a list of file names in the place of \<^verbatim>\<open>DATA_FILES\<close>\<close>
  "main2 flt exists read script_dir data_files =
     (let st = parse_entries flt exists read script_dir data_files
      in if fst st = [] then Exit (snd st @ [ErrNoData])
         else
           (let pd = reshape (fst st);
                prophet_types_present = sort (map fst pd)
            in if prophet_types_present = [] then Exit (snd st @ [ErrNoProphetTypes])
               else
                 (let r = foldl (plot_metric pd prophet_types_present) ([], []) metric_keys
                  in Shown (fst r) (snd st @ snd r))))"

section \<open>Auxiliary notions for stating the properties\<close>

definition unrecognised1 :: "string \<Rightarrow> bool" where
  \<comment> \<open>the file names that the test of line 36 of the glob-based script rejects\<close>
  "unrecognised1 filename = (match_filename (basename filename) = None)"

definition unrecognised2 :: "string \<Rightarrow> bool" where
  \<comment> \<open>the file names that fail one of the three tests of lines 42 to 64 of the other script\<close>
  "unrecognised2 filepath =
     (let fn_lower = lower (basename filepath)
      in (\<not> contains ''haggle'' fn_lower \<and> \<not> contains ''reality'' fn_lower) \<or>
         (\<not> contains ''randomprophet'' fn_lower \<and> \<not> contains ''prophet'' fn_lower) \<or>
         match_scenario (basename filepath) = None)"

definition entry_items ::
  "(string \<Rightarrow> pyfloat option) \<Rightarrow> (string \<Rightarrow> bool) \<Rightarrow> (string \<Rightarrow> string list option) \<Rightarrow> string
     \<Rightarrow> string \<Rightarrow> parsed_file list"
where
  \<comment> \<open>what one entry of the list of names adds to \<^verbatim>\<open>all_parsed_data\<close>\<close>
  "entry_items flt exists read script_dir file_entry =
     (if exists (resolve script_dir file_entry)
      then (case fst (parse_message_stats_file flt read (resolve script_dir file_entry)) of
              None \<Rightarrow> []
            | Some item \<Rightarrow> [item])
      else [])"

definition row_exact :: "(rat \<Rightarrow> rat) \<Rightarrow> (rat \<Rightarrow> rat \<Rightarrow> rat) \<Rightarrow> int list \<Rightarrow> bool" where
  \<comment> \<open>on a row of integers the conversions are exact: the first sample and every
      difference of consecutive samples are binary64 numbers within the 64-bit range
      (as they are when every sample lies between \<open>0\<close> and \<open>2 ^ 53\<close>)\<close>
  "row_exact f64 fsub cs =
     (f64 (of_int (cs ! 0)) = of_int (cs ! 0) \<and> in_int64 (cs ! 0) \<and>
      list_all (\<lambda>i. fsub (of_int (cs ! i)) (of_int (cs ! (i - 1))) = of_int (cs ! i - cs ! (i - 1)) \<and>
                    in_int64 (cs ! i - cs ! (i - 1)))
        [1..<length cs])"

definition blank :: "string \<Rightarrow> bool" where
  "blank ws = list_all is_space ws"

definition trimmed :: "string \<Rightarrow> bool" where
  \<comment> \<open>a text without white space at either end\<close>
  "trimmed s = (s = [] \<or> (\<not> is_space (hd s) \<and> \<not> is_space (last s)))"

definition kv_line :: "string \<Rightarrow> string \<Rightarrow> string \<Rightarrow> string \<Rightarrow> string \<Rightarrow> string \<Rightarrow> string" where
  \<comment> \<open>a line \<^verbatim>\<open>key: value\<close> with white space \<open>ws1\<close> to \<open>ws4\<close> around its parts\<close>
  "kv_line ws1 k ws2 ws3 v ws4 = ws1 @ k @ ws2 @ '':'' @ ws3 @ v @ ws4"

definition wellformed :: "string \<Rightarrow> string \<Rightarrow> string \<Rightarrow> string \<Rightarrow> string \<Rightarrow> string \<Rightarrow> bool" where
  \<comment> \<open>the well-formed lines for a key of the whitelist: blank separators and a value
      text without white space at its ends and without a line feed\<close>
  "wellformed ws1 k ws2 ws3 v ws4 =
     (blank ws1 \<and> blank ws2 \<and> blank ws3 \<and> blank ws4 \<and> k \<in> set metric_keys \<and>
      trimmed v \<and> CHR 0x0A \<notin> set v)"

definition stored :: "data1 \<Rightarrow> string \<Rightarrow> nat \<Rightarrow> string \<Rightarrow> pyfloat option" where
  \<comment> \<open>\<^verbatim>\<open>data[proto][sc][key]\<close> when the three keys are there\<close>
  "stored d proto sc key =
     (case map_of d proto of
        None \<Rightarrow> None
      | Some scs \<Rightarrow> (case map_of scs sc of None \<Rightarrow> None | Some m \<Rightarrow> map_of m key))"

definition initialised :: "data1 \<Rightarrow> string \<Rightarrow> nat \<Rightarrow> bool" where
  \<comment> \<open>\<^verbatim>\<open>data[proto][sc]\<close> is there\<close>
  "initialised d proto sc =
     (case map_of d proto of None \<Rightarrow> False | Some scs \<Rightarrow> map_of scs sc \<noteq> None)"

definition no_missing :: "message list \<Rightarrow> bool" where
  \<comment> \<open>no missing-data warning is among the messages\<close>
  "no_missing msgs = (\<forall>p sc mk. WarnMissing p sc mk \<notin> set msgs)"

definition points :: "parsed_file list \<Rightarrow> string \<Rightarrow> string \<Rightarrow> (nat \<times> pyfloat) list" where
  \<comment> \<open>the points that the parsed files give for a type and a metric, in the order of the
      files\<close>
  "points items pt mk =
     concat (map (\<lambda>i. if prophet_type i = pt
                       then map (\<lambda>kv. (scenario_number i, snd kv))
                              (filter (\<lambda>kv. fst kv = mk) (metrics i))
                       else []) items)"

definition file_key :: "parsed_file \<Rightarrow> string \<times> nat" where
  "file_key i = (prophet_type i, scenario_number i)"


section \<open>Properties of the popularity bar chart\<close>

lemma length_diff_from: "length (diff_from fsub prev xs) = length xs"
  by (induction xs arbitrary: prev) auto

lemma diff_from_nth:
  "i < length xs \<Longrightarrow> diff_from fsub prev xs ! i =
     (case (if i = 0 then prev else xs ! (i - 1), xs ! i) of
        (Some a, Some b) \<Rightarrow> Some (fsub b a)
      | _ \<Rightarrow> None)"
  by (induction xs arbitrary: prev i) (auto simp: nth_Cons split: nat.splits option.splits)

lemma length_diff: "length (diff fsub xs) = length xs"
  by (simp add: diff_def length_diff_from split: list.splits)

lemma length_window_popularity: "length (window_popularity f64 fsub xs) = length xs"
  by (simp add: window_popularity_def length_diff)

lemma astype_int_0: "astype_int 0 = 0"
  by (simp add: astype_int_def trunc_def in_int64_def)

lemma astype_int_of_int: "in_int64 n \<Longrightarrow> astype_int (of_int n) = n"
  by (simp add: astype_int_def trunc_def)

lemma trunc_bounds:
  "\<bar>of_int (trunc d)\<bar> \<le> \<bar>d\<bar> \<and> \<bar>d - of_int (trunc d)\<bar> < 1"
  unfolding trunc_def by (auto; linarith)

lemma in_int64_trunc:
  "in_int64 (trunc d) \<longleftrightarrow> - (2 ^ 63) - 1 < d \<and> d < 2 ^ 63"
proof -
  have a: "(- (2 ^ 63) \<le> \<lceil>d\<rceil>) = (- (2 ^ 63) - 1 < d)"
    by (simp add: le_ceiling_iff)
  have b: "(\<lfloor>d\<rfloor> < 2 ^ 63) = (d < 2 ^ 63)"
    by (simp add: floor_less_iff)
  have ni: "- (2 ^ 63) \<le> (0::int)" and pi: "(0::int) < 2 ^ 63"
    and nr: "- (2 ^ 63) - 1 < (0::rat)" and pr: "(0::rat) < 2 ^ 63"
    by simp_all
  show ?thesis
  proof (cases "0 \<le> d")
    case True
    then have "(0::int) \<le> \<lfloor>d\<rfloor>" by simp
    with ni have "- (2 ^ 63) \<le> \<lfloor>d\<rfloor>" by (rule order_trans)
    moreover from True nr have "- (2 ^ 63) - 1 < d" by (rule less_le_trans [rotated])
    ultimately show ?thesis using True b by (simp add: in_int64_def trunc_def)
  next
    case False
    then have "\<lceil>d\<rceil> \<le> (0::int)" by (simp add: ceiling_le_iff)
    then have "\<lceil>d\<rceil> < 2 ^ 63" using pi by (rule le_less_trans)
    moreover from False have "d < 0" by simp
    then have "d < 2 ^ 63" using pr by (rule less_trans)
    ultimately show ?thesis using False a by (simp add: in_int64_def trunc_def)
  qed
qed

lemma astype_int_cases:
  "astype_int d = (if - (2 ^ 63) - 1 < d \<and> d < 2 ^ 63 then trunc d else - (2 ^ 63))"
  by (simp add: astype_int_def in_int64_trunc)

lemma window_popularity_nth:
  assumes "i < length xs"
  shows "window_popularity f64 fsub xs ! i =
     (if i = 0 then astype_int (fillna0 (map_option f64 (xs ! 0)))
      else (case (xs ! (i - 1), xs ! i) of
              (Some a, Some b) \<Rightarrow> astype_int (fsub b a)
            | _ \<Rightarrow> 0))"
proof (cases xs)
  case Nil
  with assms show ?thesis by simp
next
  case (Cons x rest)
  show ?thesis
  proof (cases i)
    case 0
    then show ?thesis
      by (simp add: window_popularity_def diff_def Cons)
  next
    case (Suc j)
    with assms Cons have j: "j < length rest" by simp
    have "window_popularity f64 fsub xs ! i = astype_int (fillna0 (diff_from fsub x rest ! j))"
      using j by (simp add: window_popularity_def diff_def Cons Suc length_diff_from)
    also have "\<dots> = (case (if j = 0 then x else rest ! (j - 1), rest ! j) of
                        (Some a, Some b) \<Rightarrow> astype_int (fsub b a) | _ \<Rightarrow> 0)"
      using j by (simp add: diff_from_nth fillna0_def astype_int_0 split: option.splits)
    also have "\<dots> = (case (xs ! (i - 1), xs ! i) of
                        (Some a, Some b) \<Rightarrow> astype_int (fsub b a) | _ \<Rightarrow> 0)"
      by (cases j) (simp_all add: Cons Suc)
    finally show ?thesis by (simp add: Suc)
  qed
qed

lemma plot_outcomeD:
  assumes "plot_node_popularity to_numeric f64 fsub (Inr df) node = Plot labels w"
  shows "\<exists>row tps. filter (\<lambda>(l, r). l = node) (zip (index df) (cells df)) = [(node, row)] \<and>
           time_points (columns df) = Some tps \<and> row \<noteq> [] \<and>
           labels = window_labels tps \<and>
           w = window_popularity f64 fsub (map to_numeric row)"
proof -
  from assms have inidx: "node \<in> set (index df)"
    by (auto simp: plot_node_popularity_def split: if_splits)
  let ?rows = "filter (\<lambda>(l, r). l = node) (zip (index df) (cells df))"
  from assms inidx obtain l row where rows: "?rows = [(l, row)]"
    by (auto simp: plot_node_popularity_def split: list.splits)
  then have "(l, row) \<in> set ?rows" by simp
  then have l: "l = node" by auto
  from assms inidx rows obtain tps where tps: "time_points (columns df) = Some tps"
    by (auto simp: plot_node_popularity_def Let_def split: option.splits)
  from assms inidx rows tps have nn: "\<not> list_all (\<lambda>v. v = None) (map to_numeric row)"
    and res: "Plot (window_labels tps) (window_popularity f64 fsub (map to_numeric row)) = Plot labels w"
    by (auto simp: plot_node_popularity_def Let_def split: if_splits)
  from nn have "row \<noteq> []" by auto
  with rows l tps res show ?thesis by auto
qed

lemma example_10_15:
  "plot_node_popularity parse_decimal (\<lambda>x. x) (-) (Inr (example_table [''10'', ''15''])) ''A1''
     = Plot [1, 2] [10, 5]"
  by code_simp

lemma example_fractional:
  "plot_node_popularity parse_decimal (\<lambda>x. x) (-) (Inr (example_table [''0.5'', ''2.0''])) ''A1''
     = Plot [1, 2] [0, 1]"
  by code_simp

lemma integer_row_windows:
  assumes ex: "row_exact f64 fsub cs" and i: "i < length cs"
  shows "window_popularity f64 fsub (map (\<lambda>c. Some (of_int c)) cs) ! i
           = (if i = 0 then cs ! 0 else cs ! i - cs ! (i - 1))"
proof (cases "i = 0")
  case True
  from ex have "f64 (of_int (cs ! 0)) = of_int (cs ! 0)" "in_int64 (cs ! 0)"
    by (simp_all add: row_exact_def)
  with True i show ?thesis
    by (simp add: window_popularity_nth fillna0_def astype_int_of_int)
next
  case False
  with i have "i \<in> set [1..<length cs]" by simp
  with ex have "fsub (of_int (cs ! i)) (of_int (cs ! (i - 1))) = of_int (cs ! i - cs ! (i - 1))"
    and "in_int64 (cs ! i - cs ! (i - 1))"
    by (simp_all add: row_exact_def list_all_iff)
  with False i show ?thesis
    by (simp add: window_popularity_nth astype_int_of_int del: of_int_diff)
qed

text \<open>
  Beyond the ranges where the conversions are exact, the model follows them: a delta
  beyond the 64-bit range becomes the least 64-bit integer, and a row of integers above
  \<open>2 ^ 53\<close> has its first window rounded to binary64, while its later windows are the
  differences of the integers.
\<close>

lemma astype_int_beyond_range: "astype_int 10000000000000000000 = - 9223372036854775808"
  by (simp add: astype_int_def trunc_def in_int64_def)

lemma large_integer_row:
  assumes "f64 9007199254740993 = 9007199254740992"
    and "fsub 9007199254740995 9007199254740993 = 2"
  shows "window_popularity f64 fsub [Some 9007199254740993, Some 9007199254740995]
           = [9007199254740992, 2]"
  using assms
  by (simp add: window_popularity_def diff_def fillna0_def astype_int_def trunc_def in_int64_def)

text \<open>
  C8. When the requested node id is not among the row labels of the loaded table, the
  outcome is the "not found" diagnostic, which carries the requested id and the list of
  the available ids, and no plot is drawn.
\<close>

theorem node_not_found_diagnostic:
  "node_id \<notin> set (index df) \<Longrightarrow>
     plot_node_popularity to_numeric f64 fsub (Inr df) node_id = ErrNodeNotFound node_id (index df)"
  by (simp add: plot_node_popularity_def)

theorem node_not_found_diagnostic_witness:
  "''A2'' \<notin> set (index \<lparr>index = [''A1'', ''A3''], columns = [''Pop@3600'', ''Pop@7200''],
                          cells = [[''10'', ''15''], [''1'', ''2'']]\<rparr>) \<and>
   plot_node_popularity parse_decimal (\<lambda>x. x) (-)
     (Inr \<lparr>index = [''A1'', ''A3''], columns = [''Pop@3600'', ''Pop@7200''],
            cells = [[''10'', ''15''], [''1'', ''2'']]\<rparr>) ''A2''
   = ErrNodeNotFound ''A2'' [''A1'', ''A3'']"
  using node_not_found_diagnostic
    [of "''A2''" "\<lparr>index = [''A1'', ''A3''], columns = [''Pop@3600'', ''Pop@7200''],
                       cells = [[''10'', ''15''], [''1'', ''2'']]\<rparr>" parse_decimal "\<lambda>x. x" "(-)"]
  by simp

text \<open>
  C1, as amended. When a bar chart is drawn for the selected row, it has one window per
  sample. Window 0 is sample 0 converted to binary64 and then to a 64-bit integer;
  window \<open>i\<close> is the difference of sample \<open>i\<close> and sample \<open>i - 1\<close> as \<^verbatim>\<open>diff()\<close> computes
  it, converted to a 64-bit integer; the conversion to an integer rounds toward zero.
  Window 0 is 0 when sample 0 is missing, and a later window is 0 when its sample or the
  one before it is missing. For a row of integers on which these conversions are exact
  (the first sample and every difference of consecutive samples are binary64 numbers
  within the 64-bit range), the windows are exactly the first sample and the differences
  of consecutive samples. For the header \<^verbatim>\<open>Pop@3600,Pop@7200\<close> and the row \<^verbatim>\<open>A1,10,15\<close>,
  on which binary64 arithmetic is exact, the series is \<open>[10, 5]\<close>.
\<close>

theorem window_delta_series:
  "(plot_node_popularity to_numeric f64 fsub (Inr df) node = Plot labels w \<longrightarrow>
      (\<exists>row. filter (\<lambda>(l, r). l = node) (zip (index df) (cells df)) = [(node, row)] \<and>
         length w = length row \<and>
         (\<forall>i<length row. w ! i =
            (if i = 0 then astype_int (fillna0 (map_option f64 (to_numeric (row ! 0))))
             else (case (to_numeric (row ! (i - 1)), to_numeric (row ! i)) of
                     (Some a, Some b) \<Rightarrow> astype_int (fsub b a)
                   | _ \<Rightarrow> 0))) \<and>
         (\<forall>cs. map to_numeric row = map (\<lambda>c. Some (of_int c)) cs \<and> row_exact f64 fsub cs \<longrightarrow>
               w = map (\<lambda>i. if i = 0 then cs ! 0 else cs ! i - cs ! (i - 1)) [0..<length cs]))) \<and>
   plot_node_popularity parse_decimal (\<lambda>x. x) (-) (Inr (example_table [''10'', ''15''])) ''A1''
     = Plot [1, 2] [10, 5]"
proof (intro conjI impI)
  assume "plot_node_popularity to_numeric f64 fsub (Inr df) node = Plot labels w"
  then obtain row where
    row: "filter (\<lambda>(l, r). l = node) (zip (index df) (cells df)) = [(node, row)]"
    and w: "w = window_popularity f64 fsub (map to_numeric row)"
    using plot_outcomeD by blast
  have len: "length w = length row"
    by (simp add: w length_window_popularity)
  have nth: "\<forall>i<length row. w ! i =
            (if i = 0 then astype_int (fillna0 (map_option f64 (to_numeric (row ! 0))))
             else (case (to_numeric (row ! (i - 1)), to_numeric (row ! i)) of
                     (Some a, Some b) \<Rightarrow> astype_int (fsub b a)
                   | _ \<Rightarrow> 0))"
    by (simp add: w window_popularity_nth)
  have ints: "\<forall>cs. map to_numeric row = map (\<lambda>c. Some (of_int c)) cs \<and> row_exact f64 fsub cs \<longrightarrow>
               w = map (\<lambda>i. if i = 0 then cs ! 0 else cs ! i - cs ! (i - 1)) [0..<length cs]"
  proof (intro allI impI, elim conjE)
    fix cs :: "int list"
    assume m: "map to_numeric row = map (\<lambda>c. Some (of_int c)) cs"
      and ex: "row_exact f64 fsub cs"
    from m have lcs: "length cs = length row"
      by (metis length_map)
    show "w = map (\<lambda>i. if i = 0 then cs ! 0 else cs ! i - cs ! (i - 1)) [0..<length cs]"
    proof (rule nth_equalityI)
      show "length w = length (map (\<lambda>i. if i = 0 then cs ! 0 else cs ! i - cs ! (i - 1)) [0..<length cs])"
        by (simp add: len lcs)
    next
      fix i assume "i < length w"
      then have i: "i < length cs" by (simp add: len lcs)
      then have "w ! i = window_popularity f64 fsub (map (\<lambda>c. Some (of_int c)) cs) ! i"
        by (simp add: w m)
      also have "\<dots> = (if i = 0 then cs ! 0 else cs ! i - cs ! (i - 1))"
        using ex i by (rule integer_row_windows)
      finally show "w ! i = map (\<lambda>i. if i = 0 then cs ! 0 else cs ! i - cs ! (i - 1)) [0..<length cs] ! i"
        using i by simp
    qed
  qed
  from row len nth ints
  show "\<exists>row. filter (\<lambda>(l, r). l = node) (zip (index df) (cells df)) = [(node, row)] \<and>
         length w = length row \<and>
         (\<forall>i<length row. w ! i =
            (if i = 0 then astype_int (fillna0 (map_option f64 (to_numeric (row ! 0))))
             else (case (to_numeric (row ! (i - 1)), to_numeric (row ! i)) of
                     (Some a, Some b) \<Rightarrow> astype_int (fsub b a)
                   | _ \<Rightarrow> 0))) \<and>
         (\<forall>cs. map to_numeric row = map (\<lambda>c. Some (of_int c)) cs \<and> row_exact f64 fsub cs \<longrightarrow>
               w = map (\<lambda>i. if i = 0 then cs ! 0 else cs ! i - cs ! (i - 1)) [0..<length cs])"
    by blast
next
  show "plot_node_popularity parse_decimal (\<lambda>x. x) (-) (Inr (example_table [''10'', ''15''])) ''A1''
     = Plot [1, 2] [10, 5]"
    by (rule example_10_15)
qed

theorem window_delta_series_witness:
  "plot_node_popularity parse_decimal (\<lambda>x. x) (-) (Inr (example_table [''10'', ''15''])) ''A1''
     = Plot [1, 2] [10, 5] \<and>
   row_exact (\<lambda>x. x) (-) [10, 15] \<and>
   (\<exists>row. filter (\<lambda>(l, r). l = ''A1'')
             (zip (index (example_table [''10'', ''15''])) (cells (example_table [''10'', ''15''])))
           = [(''A1'', row)] \<and>
          length [10, 5 :: int] = length row \<and>
          (map parse_decimal row = map (\<lambda>c. Some (of_int c)) [10, 15] \<longrightarrow>
             [10, 5] = map (\<lambda>i. if i = 0 then [10, 15] ! 0 else [10, 15] ! i - [10, 15 :: int] ! (i - 1))
                         [0..<length [10, 15 :: int]]))"
proof -
  have ex: "row_exact (\<lambda>x. x) (-) [10, 15]"
    by (simp add: row_exact_def in_int64_def upt_rec)
  show ?thesis
    using window_delta_series
      [of parse_decimal "\<lambda>x. x" "(-)" "example_table [''10'', ''15'']" "''A1''" "[1, 2]" "[10, 5]"]
      ex
    by blast
qed

theorem window_delta_series_counterexample:
  "plot_node_popularity parse_decimal (\<lambda>x. x) (-) (Inr (example_table [''10'', ''x'', ''15''])) ''A1''
     = Plot [1, 2, 3] [10, 0, 0] \<and>
   spec_delta_series (map parse_decimal [''10'', ''x'', ''15'']) = [10, - 10, 15] \<and>
   plot_node_popularity parse_decimal (\<lambda>x. x) (-) (Inr (example_table [''0.5'', ''2.0''])) ''A1''
     = Plot [1, 2] [0, 1] \<and>
   spec_delta_series (map parse_decimal [''0.5'', ''2.0'']) = [1 / 2, 3 / 2]"
  by code_simp

text \<open>
  C10. When a bar chart is drawn, every bar height is what \<^verbatim>\<open>astype(int)\<close> gives on the
  window's delta with NaN replaced by 0. For a delta within the 64-bit range this is
  the delta rounded toward zero: an integer no larger in magnitude than the delta and
  less than 1 away from it. The fractional series \<open>0.5, 2.0\<close>, on which binary64
  arithmetic is exact, gives the heights \<open>0, 1\<close>, not the differences \<open>0.5, 1.5\<close>.
\<close>

theorem bar_heights_truncated:
  "(plot_node_popularity to_numeric f64 fsub (Inr df) node = Plot labels w \<longrightarrow>
      (\<exists>row. filter (\<lambda>(l, r). l = node) (zip (index df) (cells df)) = [(node, row)] \<and>
         length w = length row \<and>
         (\<forall>i<length row.
            let c = map to_numeric row;
                d = fillna0 ((diff fsub c)[0 := map_option f64 (hd c)] ! i)
            in w ! i = astype_int d \<and>
               (- (2 ^ 63) - 1 < d \<and> d < 2 ^ 63 \<longrightarrow>
                  w ! i = trunc d \<and> \<bar>of_int (w ! i)\<bar> \<le> \<bar>d\<bar> \<and> \<bar>d - of_int (w ! i)\<bar> < 1)))) \<and>
   plot_node_popularity parse_decimal (\<lambda>x. x) (-) (Inr (example_table [''0.5'', ''2.0''])) ''A1''
     = Plot [1, 2] [0, 1]"
proof (intro conjI impI)
  assume "plot_node_popularity to_numeric f64 fsub (Inr df) node = Plot labels w"
  then obtain row where
    row: "filter (\<lambda>(l, r). l = node) (zip (index df) (cells df)) = [(node, row)]"
    and w: "w = window_popularity f64 fsub (map to_numeric row)"
    using plot_outcomeD by blast
  have len: "length w = length row"
    by (simp add: w length_window_popularity)
  have "\<forall>i<length row.
            let c = map to_numeric row;
                d = fillna0 ((diff fsub c)[0 := map_option f64 (hd c)] ! i)
            in w ! i = astype_int d \<and>
               (- (2 ^ 63) - 1 < d \<and> d < 2 ^ 63 \<longrightarrow>
                  w ! i = trunc d \<and> \<bar>of_int (w ! i)\<bar> \<le> \<bar>d\<bar> \<and> \<bar>d - of_int (w ! i)\<bar> < 1)"
  proof (intro allI impI)
    fix i assume i: "i < length row"
    let ?c = "map to_numeric row"
    let ?d = "fillna0 ((diff fsub ?c)[0 := map_option f64 (hd ?c)] ! i)"
    have wi: "w ! i = astype_int ?d"
      using i by (simp add: w window_popularity_def length_diff)
    have "w ! i = trunc ?d \<and> \<bar>of_int (w ! i)\<bar> \<le> \<bar>?d\<bar> \<and> \<bar>?d - of_int (w ! i)\<bar> < 1"
      if "- (2 ^ 63) - 1 < ?d \<and> ?d < 2 ^ 63"
    proof -
      from that have "w ! i = trunc ?d"
        unfolding wi astype_int_cases by simp
      then show ?thesis
        using trunc_bounds [of ?d] by simp
    qed
    with wi show "let c = map to_numeric row;
                d = fillna0 ((diff fsub c)[0 := map_option f64 (hd c)] ! i)
            in w ! i = astype_int d \<and>
               (- (2 ^ 63) - 1 < d \<and> d < 2 ^ 63 \<longrightarrow>
                  w ! i = trunc d \<and> \<bar>of_int (w ! i)\<bar> \<le> \<bar>d\<bar> \<and> \<bar>d - of_int (w ! i)\<bar> < 1)"
      unfolding Let_def by blast
  qed
  with row len
  show "\<exists>row. filter (\<lambda>(l, r). l = node) (zip (index df) (cells df)) = [(node, row)] \<and>
         length w = length row \<and>
         (\<forall>i<length row.
            let c = map to_numeric row;
                d = fillna0 ((diff fsub c)[0 := map_option f64 (hd c)] ! i)
            in w ! i = astype_int d \<and>
               (- (2 ^ 63) - 1 < d \<and> d < 2 ^ 63 \<longrightarrow>
                  w ! i = trunc d \<and> \<bar>of_int (w ! i)\<bar> \<le> \<bar>d\<bar> \<and> \<bar>d - of_int (w ! i)\<bar> < 1))"
    by blast
next
  show "plot_node_popularity parse_decimal (\<lambda>x. x) (-) (Inr (example_table [''0.5'', ''2.0''])) ''A1''
     = Plot [1, 2] [0, 1]"
    by (rule example_fractional)
qed

theorem bar_heights_truncated_witness:
  "plot_node_popularity parse_decimal (\<lambda>x. x) (-) (Inr (example_table [''0.5'', ''2.0''])) ''A1''
     = Plot [1, 2] [0, 1] \<and>
   (\<exists>row. filter (\<lambda>(l, r). l = ''A1'')
             (zip (index (example_table [''0.5'', ''2.0''])) (cells (example_table [''0.5'', ''2.0''])))
           = [(''A1'', row)] \<and>
          length [0, 1 :: int] = length row)"
  using bar_heights_truncated
    [of parse_decimal "\<lambda>x. x" "(-)" "example_table [''0.5'', ''2.0'']" "''A1''" "[1, 2]" "[0, 1]"]
  by blast

section \<open>Properties of the comparison scripts\<close>

subsection \<open>Early termination\<close>

lemma main1_no_files: "main1 flt read [] = Exit [ErrNoFilesFound]"
  by (simp add: main1_def)

lemma main2_no_files: "main2 flt exists read script_dir [] = Exit [ErrNoData]"
  by (simp add: main2_def parse_entries_def)

text \<open>
  C5 at a failing input. The glob result holds one file with a recognised name and no
  metric line in it. The glob-based script has created the entries for the protocol
  and the scenario before it reads the file, so its test of line 82 finds data and the
  script goes on to draw six plots of NaN; the sibling script, on a file of that kind,
  ends with the "no data" diagnostic.
\<close>

theorem no_metrics_parsed_still_plots:
  "main1 flt (\<lambda>p. Some []) [''./prophettuned_scenario1_MessageStatsReport.txt'']
     = Shown \<lparr>protocols = [''Prophet''], scenarios = [1],
              plot_data =
                [(''Prophet'',
                  [(''delivery_prob'', [NaN]), (''overhead_ratio'', [NaN]),
                   (''latency_avg'', [NaN]), (''latency_med'', [NaN]),
                   (''buffertime_avg'', [NaN]), (''buffertime_med'', [NaN])])],
              missing_data_warnings =
                [WarnMissing ''Prophet'' 1 ''delivery_prob'',
                 WarnMissing ''Prophet'' 1 ''overhead_ratio'',
                 WarnMissing ''Prophet'' 1 ''latency_avg'',
                 WarnMissing ''Prophet'' 1 ''latency_med'',
                 WarnMissing ''Prophet'' 1 ''buffertime_avg'',
                 WarnMissing ''Prophet'' 1 ''buffertime_med'']\<rparr>
         [Processing ''prophettuned_scenario1_MessageStatsReport.txt'',
          WarnMissing ''Prophet'' 1 ''delivery_prob'',
          WarnMissing ''Prophet'' 1 ''overhead_ratio'',
          WarnMissing ''Prophet'' 1 ''latency_avg'',
          WarnMissing ''Prophet'' 1 ''latency_med'',
          WarnMissing ''Prophet'' 1 ''buffertime_avg'',
          WarnMissing ''Prophet'' 1 ''buffertime_med''] \<and>
   main2 flt (\<lambda>p. True) (\<lambda>p. Some []) ''/d'' [''HaggleProphet100_MessageStatsReport.txt'']
     = Exit [Processing ''/d/HaggleProphet100_MessageStatsReport.txt'',
             WarnNoMetrics ''HaggleProphet100_MessageStatsReport.txt'', ErrNoData]"
  by code_simp

subsection \<open>Locating the files\<close>

lemma processed_append: "processed (xs @ ys) = processed xs @ processed ys"
  by (simp add: processed_def)

lemma processed_Nil: "processed [] = []"
  by (simp add: processed_def)

lemma processed_Cons:
  "processed (m # ms) = (case m of Processing f \<Rightarrow> [f] | _ \<Rightarrow> []) @ processed ms"
  by (simp add: processed_def)

lemma processed_parse_line1: "processed (snd (parse_line1 flt bn p sc st raw)) = processed (snd st)"
  by (simp add: parse_line1_def processed_append processed_Cons processed_Nil split: option.splits prod.splits)

lemma processed_parse_lines1:
  "processed (snd (foldl (parse_line1 flt bn p sc) st ls)) = processed (snd st)"
  by (induction ls arbitrary: st) (simp_all add: processed_parse_line1)

lemma processed_process_file1:
  "processed (snd (process_file1 flt read st f)) = processed (snd st) @ [basename f]"
  by (simp add: process_file1_def Let_def processed_parse_lines1 processed_append processed_Cons processed_Nil
      split: option.splits prod.splits)

lemma processed_process_files1:
  "processed (snd (foldl (process_file1 flt read) st fs)) = processed (snd st) @ map basename fs"
  by (induction fs arbitrary: st) (simp_all add: processed_process_file1)

lemma processed_parse_line2: "processed (snd (parse_line2 flt fn st raw)) = processed (snd st)"
  by (simp add: parse_line2_def processed_append processed_Cons processed_Nil split: option.splits prod.splits)

lemma processed_parse_lines2:
  "processed (snd (foldl (parse_line2 flt fn) st ls)) = processed (snd st)"
  by (induction ls arbitrary: st) (simp_all add: processed_parse_line2)

lemma processed_parse_message_stats_file:
  "processed (snd (parse_message_stats_file flt read p)) = []"
  by (simp add: parse_message_stats_file_def Let_def processed_parse_lines2 processed_append
      processed_Cons processed_Nil processed_Nil split: option.splits)

lemma processed_process_entry:
  "processed (snd (process_entry flt exists read dir st e)) =
     processed (snd st) @ (if exists (resolve dir e) then [resolve dir e] else [])"
  by (simp add: process_entry_def Let_def processed_append processed_parse_message_stats_file
      processed_Cons processed_Nil split: option.splits)

lemma processed_process_entries:
  "processed (snd (foldl (process_entry flt exists read dir) st es)) =
     processed (snd st) @ filter exists (map (resolve dir) es)"
  by (induction es arbitrary: st) (simp_all add: processed_process_entry)

lemma msgs_mono_process_entry:
  "set (snd st) \<subseteq> set (snd (process_entry flt exists read dir st e))"
  by (auto simp: process_entry_def Let_def split: option.splits)

lemma msgs_mono_process_entries:
  "set (snd st) \<subseteq> set (snd (foldl (process_entry flt exists read dir) st es))"
proof (induction es arbitrary: st)
  case Nil
  show ?case by simp
next
  case (Cons e es)
  have "set (snd st) \<subseteq> set (snd (process_entry flt exists read dir st e))"
    by (rule msgs_mono_process_entry)
  also have "\<dots> \<subseteq> set (snd (foldl (process_entry flt exists read dir) (process_entry flt exists read dir st e) es))"
    by (rule Cons.IH)
  finally show ?case by simp
qed

lemma missing_warned:
  "e \<in> set es \<Longrightarrow> \<not> exists (resolve dir e) \<Longrightarrow>
     NotFoundSkipping e (resolve dir e) \<in> set (snd (foldl (process_entry flt exists read dir) st es))"
proof (induction es arbitrary: st)
  case Nil
  then show ?case by simp
next
  case (Cons a es)
  show ?case
  proof (cases "e = a")
    case True
    with Cons.prems have "NotFoundSkipping e (resolve dir e) \<in> set (snd (process_entry flt exists read dir st a))"
      by (simp add: process_entry_def)
    then show ?thesis
      using msgs_mono_process_entries
        [where st = "process_entry flt exists read dir st a" and flt = flt and exists = exists
           and read = read and dir = dir and es = es]
      by auto
  next
    case False
    with Cons show ?thesis by simp
  qed
qed

text \<open>
  C4, as amended. The glob-based script hands the glob result to the parser sorted,
  with the same files in it (so without duplicates when the glob result has none); it
  checks no file for existence itself. The other script hands over its list of names
  in the order of the list, each name resolved against the script directory, leaving
  out exactly the files that do not exist; it neither sorts nor removes duplicates.
  Each missing file is reported by a message and the files after it are still handled.
\<close>

theorem file_locator:
  "processed (snd (parse_files1 flt read report_files)) = map basename (sort report_files) \<and>
   sorted (sort report_files) \<and> mset (sort report_files) = mset report_files \<and>
   processed (snd (parse_entries flt exists read script_dir data_files))
     = filter exists (map (resolve script_dir) data_files) \<and>
   (\<forall>e\<in>set data_files. \<not> exists (resolve script_dir e) \<longrightarrow>
      NotFoundSkipping e (resolve script_dir e)
        \<in> set (snd (parse_entries flt exists read script_dir data_files)))"
  by (simp add: parse_files1_def parse_entries_def processed_process_files1
      processed_process_entries missing_warned processed_Nil)

theorem file_locator_counterexample:
  "processed (snd (parse_entries example_float (\<lambda>p. True) (\<lambda>p. Some [''delivery_prob: 0.5'']) ''/d''
      [''HaggleProphet300_MessageStatsReport.txt'', ''HaggleProphet100_MessageStatsReport.txt'',
       ''HaggleProphet100_MessageStatsReport.txt'']))
    = [''/d/HaggleProphet300_MessageStatsReport.txt'', ''/d/HaggleProphet100_MessageStatsReport.txt'',
       ''/d/HaggleProphet100_MessageStatsReport.txt''] \<and>
   \<not> sorted [''/d/HaggleProphet300_MessageStatsReport.txt'', ''/d/HaggleProphet100_MessageStatsReport.txt'',
       ''/d/HaggleProphet100_MessageStatsReport.txt''] \<and>
   \<not> distinct [''/d/HaggleProphet300_MessageStatsReport.txt'', ''/d/HaggleProphet100_MessageStatsReport.txt'',
       ''/d/HaggleProphet100_MessageStatsReport.txt'']"
  by code_simp

theorem file_locator_witness:
  "processed (snd (parse_entries example_float (\<lambda>p. p \<noteq> ''/d/gone.txt'') (\<lambda>p. Some [''delivery_prob: 0.5'']) ''/d''
      [''HaggleProphet300_MessageStatsReport.txt'', ''gone.txt'', ''HaggleProphet100_MessageStatsReport.txt'']))
    = [''/d/HaggleProphet300_MessageStatsReport.txt'', ''/d/HaggleProphet100_MessageStatsReport.txt''] \<and>
   NotFoundSkipping ''gone.txt'' ''/d/gone.txt''
     \<in> set (snd (parse_entries example_float (\<lambda>p. p \<noteq> ''/d/gone.txt'') (\<lambda>p. Some [''delivery_prob: 0.5'']) ''/d''
      [''HaggleProphet300_MessageStatsReport.txt'', ''gone.txt'', ''HaggleProphet100_MessageStatsReport.txt'']))"
proof -
  have r: "resolve ''/d'' ''gone.txt'' = ''/d/gone.txt''"
    "resolve ''/d'' ''HaggleProphet300_MessageStatsReport.txt'' = ''/d/HaggleProphet300_MessageStatsReport.txt''"
    "resolve ''/d'' ''HaggleProphet100_MessageStatsReport.txt'' = ''/d/HaggleProphet100_MessageStatsReport.txt''"
    by (simp_all add: resolve_def join_def isabs_def startswith_def)
  show ?thesis
    using file_locator [of example_float "\<lambda>p. Some [''delivery_prob: 0.5'']" "[]"
        "\<lambda>p. p \<noteq> ''/d/gone.txt''" "''/d''"
        "[''HaggleProphet300_MessageStatsReport.txt'', ''gone.txt'', ''HaggleProphet100_MessageStatsReport.txt'']"]
    by (simp add: r)
qed

subsection \<open>Files that are skipped\<close>

lemma parse_line1_fst_cong:
  assumes that: "fst st = fst st'"
  shows "fst (parse_line1 flt bn p sc st raw) = fst (parse_line1 flt bn p sc st' raw)"
proof (cases "key_value1 raw")
  case None
  then show ?thesis using that by (simp add: parse_line1_def)
next
  case (Some kv)
  obtain key v where "kv = (key, v)" by (cases kv)
  with Some that show ?thesis
    by (cases "flt v") (simp_all add: parse_line1_def)
qed

lemma parse_lines1_fst_cong:
  "fst st = fst st' \<Longrightarrow>
     fst (foldl (parse_line1 flt bn p sc) st ls) = fst (foldl (parse_line1 flt bn p sc) st' ls)"
proof (induction ls arbitrary: st st')
  case Nil
  then show ?case by simp
next
  case (Cons l ls)
  have "fst (parse_line1 flt bn p sc st l) = fst (parse_line1 flt bn p sc st' l)"
    using Cons.prems by (rule parse_line1_fst_cong)
  then have "fst (foldl (parse_line1 flt bn p sc) (parse_line1 flt bn p sc st l) ls)
           = fst (foldl (parse_line1 flt bn p sc) (parse_line1 flt bn p sc st' l) ls)"
    by (rule Cons.IH)
  then show ?case by simp
qed

lemma process_file1_fst_cong:
  assumes eq: "fst st = fst st'"
  shows "fst (process_file1 flt read st f) = fst (process_file1 flt read st' f)"
proof (cases "match_filename (basename f)")
  case None
  with eq show ?thesis by (simp add: process_file1_def Let_def)
next
  case (Some g)
  obtain g1 g2 where g: "g = (g1, g2)" by (cases g)
  show ?thesis
  proof (cases "read f")
    case None
    with eq Some g show ?thesis by (simp add: process_file1_def Let_def)
  next
    case (Some ls)
    with eq \<open>match_filename (basename f) = Some g\<close> g show ?thesis
      by (simp add: process_file1_def Let_def) (rule parse_lines1_fst_cong, simp)
  qed
qed

lemma process_files1_fst_cong:
  "fst st = fst st' \<Longrightarrow>
     fst (foldl (process_file1 flt read) st fs) = fst (foldl (process_file1 flt read) st' fs)"
proof (induction fs arbitrary: st st')
  case Nil
  then show ?case by simp
next
  case (Cons f fs)
  have "fst (process_file1 flt read st f) = fst (process_file1 flt read st' f)"
    using Cons.prems by (rule process_file1_fst_cong)
  then have "fst (foldl (process_file1 flt read) (process_file1 flt read st f) fs)
           = fst (foldl (process_file1 flt read) (process_file1 flt read st' f) fs)"
    by (rule Cons.IH)
  then show ?case by simp
qed

lemma process_file1_unrecognised:
  "unrecognised1 f \<Longrightarrow> fst (process_file1 flt read st f) = fst st"
  by (simp add: process_file1_def unrecognised1_def Let_def)

lemma process_files1_insort:
  assumes "unrecognised1 f"
  shows "fst (foldl (process_file1 flt read) st (insort f zs)) = fst (foldl (process_file1 flt read) st zs)"
proof (induction zs arbitrary: st)
  case Nil
  from assms show ?case by (simp add: process_file1_unrecognised)
next
  case (Cons z zs)
  show ?case
  proof (cases "f \<le> z")
    case True
    have "fst (process_file1 flt read st f) = fst st"
      using assms by (rule process_file1_unrecognised)
    then have "fst (foldl (process_file1 flt read) (process_file1 flt read st f) (z # zs))
             = fst (foldl (process_file1 flt read) st (z # zs))"
      by (rule process_files1_fst_cong)
    with True show ?thesis by simp
  next
    case False
    then show ?thesis by (simp add: Cons.IH)
  qed
qed

lemma sort_perm: "mset (xs::'a::linorder list) = mset ys \<Longrightarrow> sort xs = sort ys"
  by (metis properties_for_sort mset_sort sorted_sort)

lemma parse_files1_perm:
  "mset g1 = mset g2 \<Longrightarrow> parse_files1 flt read g1 = parse_files1 flt read g2"
  using sort_perm [of g1 g2] by (simp add: parse_files1_def)

lemma parse_files1_unrecognised:
  assumes "unrecognised1 f"
  shows "fst (parse_files1 flt read (xs @ f # ys)) = fst (parse_files1 flt read (xs @ ys))"
proof -
  have "parse_files1 flt read (xs @ f # ys) = parse_files1 flt read (f # xs @ ys)"
    by (rule parse_files1_perm) simp
  also have "fst \<dots> = fst (parse_files1 flt read (xs @ ys))"
    using assms by (simp add: parse_files1_def process_files1_insort)
  finally show ?thesis .
qed

lemma msgs_mono_parse_line1: "set (snd st) \<subseteq> set (snd (parse_line1 flt bn p sc st raw))"
  by (auto simp: parse_line1_def split: option.splits prod.splits)

lemma msgs_mono_parse_lines1: "set (snd st) \<subseteq> set (snd (foldl (parse_line1 flt bn p sc) st ls))"
proof (induction ls arbitrary: st)
  case Nil
  show ?case by simp
next
  case (Cons l ls)
  have "set (snd st) \<subseteq> set (snd (parse_line1 flt bn p sc st l))"
    by (rule msgs_mono_parse_line1)
  also have "\<dots> \<subseteq> set (snd (foldl (parse_line1 flt bn p sc) (parse_line1 flt bn p sc st l) ls))"
    by (rule Cons.IH)
  finally show ?case by simp
qed

lemma msgs_mono_process_file1: "set (snd st) \<subseteq> set (snd (process_file1 flt read st f))"
proof -
  have "set (snd st) \<subseteq> set (snd (foldl (parse_line1 flt (basename f) p sc)
          (d, snd st @ [Processing (basename f)]) ls))" for p sc d ls
    using msgs_mono_parse_lines1
      [where st = "(d, snd st @ [Processing (basename f)])" and flt = flt and bn = "basename f"
         and p = p and sc = sc and ls = ls]
    by simp
  then show ?thesis
    by (auto simp: process_file1_def Let_def split: option.split prod.split)
qed

lemma msgs_mono_process_files1:
  "set (snd st) \<subseteq> set (snd (foldl (process_file1 flt read) st fs))"
proof (induction fs arbitrary: st)
  case Nil
  show ?case by simp
next
  case (Cons f fs)
  have "set (snd st) \<subseteq> set (snd (process_file1 flt read st f))"
    by (rule msgs_mono_process_file1)
  also have "\<dots> \<subseteq> set (snd (foldl (process_file1 flt read) (process_file1 flt read st f) fs))"
    by (rule Cons.IH)
  finally show ?case by simp
qed

lemma unrecognised1_warned:
  "f \<in> set fs \<Longrightarrow> unrecognised1 f \<Longrightarrow>
     WarnFilename (basename f) \<in> set (snd (foldl (process_file1 flt read) st fs))"
proof (induction fs arbitrary: st)
  case Nil
  then show ?case by simp
next
  case (Cons a fs)
  show ?case
  proof (cases "f = a")
    case True
    with Cons.prems have "WarnFilename (basename f) \<in> set (snd (process_file1 flt read st a))"
      by (simp add: process_file1_def unrecognised1_def Let_def)
    then show ?thesis
      using msgs_mono_process_files1
        [where st = "process_file1 flt read st a" and flt = flt and read = read and fs = fs]
      by auto
  next
    case False
    with Cons show ?thesis by simp
  qed
qed

lemma main1_figures_cong:
  assumes "fst (parse_files1 flt read g1) = fst (parse_files1 flt read g2)" "g1 \<noteq> []" "g2 \<noteq> []"
  shows "figures (main1 flt read g1) = figures (main1 flt read g2)"
proof -
  let ?d1 = "fst (parse_files1 flt read g1)"
  let ?d2 = "fst (parse_files1 flt read g2)"
  from assms(1) have eq: "?d1 = ?d2" .
  show ?thesis
  proof (cases "?d2 = []")
    case True
    with eq assms(2,3) show ?thesis by (simp add: main1_def Let_def)
  next
    case False
    show ?thesis
    proof (cases "map_of ?d2 (hd (sort (map fst ?d2)))")
      case None
      with eq False assms(2,3) show ?thesis by (simp add: main1_def Let_def)
    next
      case (Some scs)
      with eq False assms(2,3) show ?thesis by (simp add: main1_def Let_def)
    qed
  qed
qed

lemma parse_unrecognised2:
  assumes "unrecognised2 path"
  shows "fst (parse_message_stats_file flt read path) = None"
    and "snd (parse_message_stats_file flt read path) = [WarnBaseType (basename path)] \<or>
         snd (parse_message_stats_file flt read path) = [WarnVariant (basename path)] \<or>
         snd (parse_message_stats_file flt read path) = [WarnScenario (basename path)]"
  using assms
  by (auto simp: unrecognised2_def parse_message_stats_file_def Let_def)

lemma process_entry_items:
  "fst (process_entry flt exists read dir st e) = fst st @ entry_items flt exists read dir e"
  by (simp add: process_entry_def entry_items_def Let_def split: option.split)

lemma process_entries_items:
  "fst (foldl (process_entry flt exists read dir) st es)
     = fst st @ concat (map (entry_items flt exists read dir) es)"
  by (induction es arbitrary: st) (simp_all add: process_entry_items)

lemma parse_entries_items:
  "fst (parse_entries flt exists read dir es) = concat (map (entry_items flt exists read dir) es)"
  by (simp add: parse_entries_def process_entries_items)

lemma entry_items_unrecognised2:
  "unrecognised2 (resolve dir e) \<Longrightarrow> entry_items flt exists read dir e = []"
  by (simp add: entry_items_def parse_unrecognised2(1))

lemma unrecognised2_warned:
  assumes "e \<in> set es" "exists (resolve dir e)" "unrecognised2 (resolve dir e)"
  shows "WarnBaseType (basename (resolve dir e)) \<in> set (snd (foldl (process_entry flt exists read dir) st es)) \<or>
         WarnVariant (basename (resolve dir e)) \<in> set (snd (foldl (process_entry flt exists read dir) st es)) \<or>
         WarnScenario (basename (resolve dir e)) \<in> set (snd (foldl (process_entry flt exists read dir) st es))"
  using assms(1)
proof (induction es arbitrary: st)
  case Nil
  then show ?case by simp
next
  case (Cons a es)
  show ?case
  proof (cases "e = a")
    case True
    let ?st = "process_entry flt exists read dir st a"
    have sub: "set (snd ?st) \<subseteq> set (snd (foldl (process_entry flt exists read dir) ?st es))"
      by (rule msgs_mono_process_entries)
    have "set (snd (parse_message_stats_file flt read (resolve dir e))) \<subseteq> set (snd ?st)"
      using True assms(2) by (auto simp: process_entry_def Let_def split: option.split)
    moreover have "WarnBaseType (basename (resolve dir e)) \<in> set (snd (parse_message_stats_file flt read (resolve dir e))) \<or>
         WarnVariant (basename (resolve dir e)) \<in> set (snd (parse_message_stats_file flt read (resolve dir e))) \<or>
         WarnScenario (basename (resolve dir e)) \<in> set (snd (parse_message_stats_file flt read (resolve dir e)))"
      using parse_unrecognised2(2) [OF assms(3), of flt read] by auto
    ultimately show ?thesis using sub by auto
  next
    case False
    with Cons show ?thesis by simp
  qed
qed

lemma main2_figures_cong:
  assumes "fst (parse_entries flt exists read dir es1) = fst (parse_entries flt exists read dir es2)"
  shows "figures (main2 flt exists read dir es1) = figures (main2 flt exists read dir es2)"
  using assms by (simp add: main2_def Let_def)

text \<open>
  C6. A file whose name the script does not recognise adds nothing to what is parsed:
  the parsed data, and the figures drawn from them, are those of the same list of files
  without it, the function returns normally, the files after it are handled, and a
  warning naming the file is printed. This holds for the glob-based script (a name that
  line 34 does not match) and for the script over a list of names (a name that fails
  one of the tests of lines 42 to 64); for the latter the warning is printed when the
  file exists, a missing file being skipped before its name is looked at.
\<close>

theorem unrecognised_filename_skipped:
  "(unrecognised1 f \<longrightarrow>
      fst (parse_files1 flt read (fs @ f # fs')) = fst (parse_files1 flt read (fs @ fs')) \<and>
      WarnFilename (basename f) \<in> set (snd (parse_files1 flt read (fs @ f # fs'))) \<and>
      (fs @ fs' \<noteq> [] \<longrightarrow>
         figures (main1 flt read (fs @ f # fs')) = figures (main1 flt read (fs @ fs')))) \<and>
   (unrecognised2 (resolve script_dir e) \<longrightarrow>
      fst (parse_message_stats_file flt read (resolve script_dir e)) = None \<and>
      fst (parse_entries flt exists read script_dir (es @ e # es'))
        = fst (parse_entries flt exists read script_dir (es @ es')) \<and>
      figures (main2 flt exists read script_dir (es @ e # es'))
        = figures (main2 flt exists read script_dir (es @ es')) \<and>
      (exists (resolve script_dir e) \<longrightarrow>
         WarnBaseType (basename (resolve script_dir e))
           \<in> set (snd (parse_entries flt exists read script_dir (es @ e # es'))) \<or>
         WarnVariant (basename (resolve script_dir e))
           \<in> set (snd (parse_entries flt exists read script_dir (es @ e # es'))) \<or>
         WarnScenario (basename (resolve script_dir e))
           \<in> set (snd (parse_entries flt exists read script_dir (es @ e # es')))))"
proof (intro conjI impI)
  assume u: "unrecognised1 f"
  show d: "fst (parse_files1 flt read (fs @ f # fs')) = fst (parse_files1 flt read (fs @ fs'))"
    using u by (rule parse_files1_unrecognised)
  have "f \<in> set (sort (fs @ f # fs'))" by simp
  then show "WarnFilename (basename f) \<in> set (snd (parse_files1 flt read (fs @ f # fs')))"
    unfolding parse_files1_def using u by (rule unrecognised1_warned)
  show "figures (main1 flt read (fs @ f # fs')) = figures (main1 flt read (fs @ fs'))"
    if "fs @ fs' \<noteq> []"
    using d that by (intro main1_figures_cong) simp_all
next
  assume u: "unrecognised2 (resolve script_dir e)"
  show "fst (parse_message_stats_file flt read (resolve script_dir e)) = None"
    using u by (rule parse_unrecognised2(1))
  show d: "fst (parse_entries flt exists read script_dir (es @ e # es'))
        = fst (parse_entries flt exists read script_dir (es @ es'))"
    using u by (simp add: parse_entries_items entry_items_unrecognised2)
  show "figures (main2 flt exists read script_dir (es @ e # es'))
        = figures (main2 flt exists read script_dir (es @ es'))"
    using d by (rule main2_figures_cong)
  show "WarnBaseType (basename (resolve script_dir e))
           \<in> set (snd (parse_entries flt exists read script_dir (es @ e # es'))) \<or>
         WarnVariant (basename (resolve script_dir e))
           \<in> set (snd (parse_entries flt exists read script_dir (es @ e # es'))) \<or>
         WarnScenario (basename (resolve script_dir e))
           \<in> set (snd (parse_entries flt exists read script_dir (es @ e # es')))"
    if "exists (resolve script_dir e)"
    unfolding parse_entries_def
    by (rule unrecognised2_warned) (use that u in simp_all)
qed

theorem unrecognised_filename_skipped_witness:
  "unrecognised1 ''./notes_MessageStatsReport.txt'' \<and>
   fst (parse_files1 example_float (\<lambda>p. Some [''delivery_prob: 0.5''])
          [''./prophettuned_scenario1_MessageStatsReport.txt'', ''./notes_MessageStatsReport.txt''])
     = fst (parse_files1 example_float (\<lambda>p. Some [''delivery_prob: 0.5''])
          [''./prophettuned_scenario1_MessageStatsReport.txt'']) \<and>
   WarnFilename ''notes_MessageStatsReport.txt''
     \<in> set (snd (parse_files1 example_float (\<lambda>p. Some [''delivery_prob: 0.5''])
          [''./prophettuned_scenario1_MessageStatsReport.txt'', ''./notes_MessageStatsReport.txt''])) \<and>
   unrecognised2 (resolve ''/d'' ''Summary_MessageStatsReport.txt'') \<and>
   fst (parse_entries example_float (\<lambda>p. True) (\<lambda>p. Some [''delivery_prob: 0.5'']) ''/d''
          [''HaggleProphet100_MessageStatsReport.txt'', ''Summary_MessageStatsReport.txt''])
     = fst (parse_entries example_float (\<lambda>p. True) (\<lambda>p. Some [''delivery_prob: 0.5'']) ''/d''
          [''HaggleProphet100_MessageStatsReport.txt'']) \<and>
   figures (main2 example_float (\<lambda>p. True) (\<lambda>p. Some [''delivery_prob: 0.5'']) ''/d''
          [''HaggleProphet100_MessageStatsReport.txt'', ''Summary_MessageStatsReport.txt''])
     = figures (main2 example_float (\<lambda>p. True) (\<lambda>p. Some [''delivery_prob: 0.5'']) ''/d''
          [''HaggleProphet100_MessageStatsReport.txt''])"
proof -
  have u1: "unrecognised1 ''./notes_MessageStatsReport.txt''"
    by code_simp
  have b: "basename ''./notes_MessageStatsReport.txt'' = ''notes_MessageStatsReport.txt''"
    by code_simp
  have u2: "unrecognised2 (resolve ''/d'' ''Summary_MessageStatsReport.txt'')"
    by code_simp
  show ?thesis
    using unrecognised_filename_skipped
      [of "''./notes_MessageStatsReport.txt''" example_float "\<lambda>p. Some [''delivery_prob: 0.5'']"
          "[''./prophettuned_scenario1_MessageStatsReport.txt'']" "[]"
          "''/d''" "''Summary_MessageStatsReport.txt''" "\<lambda>p. True"
          "[''HaggleProphet100_MessageStatsReport.txt'']" "[]"]
      u1 u2
    by (simp add: b)
qed

subsection \<open>Lines of the form key: value\<close>

lemma dropWhile_append_stop:
  "\<not> P c \<Longrightarrow> dropWhile P (xs @ c # ys) = dropWhile P xs @ c # ys"
  by (induction xs) auto

lemma dropWhile_blank: "blank ws \<Longrightarrow> dropWhile is_space (ws @ s) = dropWhile is_space s"
  by (induction ws) (auto simp: blank_def)

lemma lstrip_blank: "blank ws \<Longrightarrow> lstrip (ws @ s) = lstrip s"
  by (simp add: lstrip_def dropWhile_blank)

lemma blank_rev: "blank (rev ws) = blank ws"
  by (simp add: blank_def list_all_iff)

lemma rstrip_blank: "blank ws \<Longrightarrow> rstrip (s @ ws) = rstrip s"
  by (simp add: rstrip_def dropWhile_blank blank_rev)

lemma rstrip_stop: "\<not> is_space c \<Longrightarrow> rstrip (a @ c # t) = a @ c # rstrip t"
  by (simp add: rstrip_def dropWhile_append_stop)

lemma lstrip_trimmed: "trimmed s \<Longrightarrow> lstrip s = s"
  by (cases s) (auto simp: trimmed_def lstrip_def)

lemma rstrip_trimmed: "trimmed s \<Longrightarrow> rstrip s = s"
proof (cases s rule: rev_cases)
  case Nil
  then show ?thesis by (simp add: rstrip_def)
next
  case (snoc ys y)
  assume "trimmed s"
  with snoc have "\<not> is_space y" by (simp add: trimmed_def)
  with snoc show ?thesis by (simp add: rstrip_def)
qed

lemma rstrip_Nil: "rstrip [] = []"
  by (simp add: rstrip_def)

lemma strip_sandwich:
  assumes "blank ws1" "blank ws2" "trimmed s"
  shows "strip (ws1 @ s @ ws2) = s"
proof -
  have "lstrip (ws1 @ s @ ws2) = lstrip (s @ ws2)"
    using assms(1) by (rule lstrip_blank)
  show ?thesis
  proof (cases s)
    case Nil
    have "lstrip (ws1 @ ws2) = []"
      using assms(1,2) by (simp add: lstrip_def blank_def list_all_iff)
    with Nil show ?thesis by (simp add: strip_def rstrip_Nil)
  next
    case (Cons c cs)
    with assms(3) have "\<not> is_space c" by (simp add: trimmed_def)
    with Cons have "lstrip (s @ ws2) = s @ ws2" by (simp add: lstrip_def)
    then have "strip (ws1 @ s @ ws2) = rstrip (s @ ws2)"
      using assms(1) by (simp add: strip_def lstrip_blank)
    also have "\<dots> = s"
      using assms(2,3) by (simp add: rstrip_blank rstrip_trimmed)
    finally show ?thesis .
  qed
qed

lemma metric_key_shape:
  "k \<in> set metric_keys \<Longrightarrow> k \<noteq> [] \<and> trimmed k \<and> CHR '':'' \<notin> set k"
  by (auto simp: metric_keys_def trimmed_def is_space_def)

lemma colon_not_space: "\<not> is_space CHR '':''"
  by (simp add: is_space_def)

lemma blank_no_colon: "blank ws \<Longrightarrow> CHR '':'' \<notin> set ws"
  using colon_not_space by (auto simp: blank_def list_all_iff)

lemma strip_kv_line:
  assumes "wellformed ws1 k ws2 ws3 v ws4"
  shows "strip (kv_line ws1 k ws2 ws3 v ws4) = k @ ws2 @ CHR '':'' # (if v = [] then [] else ws3 @ v)"
proof -
  from assms have b: "blank ws1" "blank ws2" "blank ws3" "blank ws4" and k: "k \<in> set metric_keys"
    and v: "trimmed v"
    by (simp_all add: wellformed_def)
  from metric_key_shape[OF k] obtain c cs where kc: "k = c # cs" and c: "\<not> is_space c"
    by (cases k) (auto simp: trimmed_def)
  have "lstrip (kv_line ws1 k ws2 ws3 v ws4) = k @ ws2 @ CHR '':'' # ws3 @ v @ ws4"
    using b(1) c by (simp add: kv_line_def lstrip_blank) (simp add: lstrip_def kc)
  then have "strip (kv_line ws1 k ws2 ws3 v ws4) = rstrip ((k @ ws2) @ CHR '':'' # ws3 @ v @ ws4)"
    by (simp add: strip_def)
  also have "\<dots> = (k @ ws2) @ CHR '':'' # rstrip (ws3 @ v @ ws4)"
    using colon_not_space by (rule rstrip_stop)
  also have "rstrip (ws3 @ v @ ws4) = (if v = [] then [] else ws3 @ v)"
  proof (cases v rule: rev_cases)
    case Nil
    have "blank (ws3 @ ws4)" using b(3,4) by (simp add: blank_def)
    then have "rstrip ([] @ (ws3 @ ws4)) = rstrip []" by (rule rstrip_blank)
    with Nil show ?thesis by (simp add: rstrip_Nil)
  next
    case (snoc ys y)
    with v have y: "\<not> is_space y" by (simp add: trimmed_def)
    have "rstrip ((ws3 @ v) @ ws4) = rstrip (ws3 @ v)"
      using b(4) by (rule rstrip_blank)
    also have "ws3 @ v = (ws3 @ ys) @ y # []" using snoc by simp
    also have "rstrip \<dots> = (ws3 @ ys) @ y # rstrip []" using y by (rule rstrip_stop)
    finally show ?thesis using snoc by (simp add: rstrip_Nil)
  qed
  finally show ?thesis by simp
qed

lemma takeWhile_no_colon:
  "CHR '':'' \<notin> set a \<Longrightarrow> takeWhile (\<lambda>c. c \<noteq> CHR '':'') (a @ CHR '':'' # t) = a"
  by (induction a) auto

lemma dropWhile_no_colon:
  "CHR '':'' \<notin> set a \<Longrightarrow> dropWhile (\<lambda>c. c \<noteq> CHR '':'') (a @ CHR '':'' # t) = CHR '':'' # t"
  by (induction a) auto

lemma strip_blank_trimmed: "blank ws \<Longrightarrow> trimmed s \<Longrightarrow> strip (ws @ s) = s"
  using strip_sandwich [of ws "[]" s] by (simp add: blank_def)

lemma strip_trimmed_blank: "blank ws \<Longrightarrow> trimmed s \<Longrightarrow> strip (s @ ws) = s"
  using strip_sandwich [of "[]" ws s] by (simp add: blank_def)

lemma strip_Nil: "strip [] = []"
  by (simp add: strip_def lstrip_def rstrip_def)

lemma key_value2_line:
  assumes "wellformed ws1 k ws2 ws3 v ws4"
  shows "key_value2 (kv_line ws1 k ws2 ws3 v ws4) = Some (k, v)"
proof -
  from assms have b: "blank ws2" "blank ws3" and k: "k \<in> set metric_keys" and v: "trimmed v"
    by (simp_all add: wellformed_def)
  let ?t = "if v = [] then [] else ws3 @ v"
  have s: "strip (kv_line ws1 k ws2 ws3 v ws4) = (k @ ws2) @ CHR '':'' # ?t"
    using strip_kv_line [OF assms] by simp
  have nc: "CHR '':'' \<notin> set (k @ ws2)"
    using metric_key_shape [OF k] blank_no_colon [OF b(1)] by simp
  have key: "strip (k @ ws2) = k"
    using b(1) metric_key_shape [OF k] by (simp add: strip_trimmed_blank)
  have val: "strip ?t = v"
    using b(2) v by (simp add: strip_blank_trimmed strip_Nil)
  show ?thesis
    unfolding key_value2_def Let_def s takeWhile_no_colon [OF nc] dropWhile_no_colon [OF nc]
    using key val by simp
qed

lemma key_value1_line:
  assumes "wellformed ws1 k ws2 ws3 v ws4"
  shows "key_value1 (kv_line ws1 k ws2 ws3 v ws4) = Some (k, v)"
proof -
  from assms have b: "blank ws2" "blank ws3" and k: "k \<in> set metric_keys" and v: "trimmed v"
    and nl: "CHR 0x0A \<notin> set v"
    by (simp_all add: wellformed_def)
  let ?t = "if v = [] then [] else ws3 @ v"
  have s: "strip (kv_line ws1 k ws2 ws3 v ws4) = (k @ ws2) @ CHR '':'' # ?t"
    using strip_kv_line [OF assms] by simp
  have nc: "CHR '':'' \<notin> set (k @ ws2)"
    using metric_key_shape [OF k] blank_no_colon [OF b(1)] by simp
  have ne: "k @ ws2 \<noteq> []"
    using metric_key_shape [OF k] by simp
  have key: "strip (k @ ws2) = k"
    using b(1) metric_key_shape [OF k] by (simp add: strip_trimmed_blank)
  have "dropWhile is_space ?t = v"
    using b(2) v lstrip_trimmed [OF v] by (simp add: dropWhile_blank lstrip_def)
  moreover have "takeWhile (\<lambda>c. c \<noteq> CHR 0x0A) v = v"
    using nl by (auto simp: takeWhile_eq_all_conv)
  ultimately have g2: "takeWhile (\<lambda>c. c \<noteq> CHR 0x0A) (dropWhile is_space ?t) = v"
    by simp
  have sv: "strip v = v"
    using v by (simp add: strip_def lstrip_trimmed rstrip_trimmed)
  have m: "match_kv ((k @ ws2) @ CHR '':'' # ?t) = Some (k @ ws2, v)"
    unfolding match_kv_def Let_def takeWhile_no_colon [OF nc] dropWhile_no_colon [OF nc]
    using ne g2 by simp
  show ?thesis
    unfolding key_value1_def Let_def s m
    using key sv by simp
qed

lemma parse_line2_wellformed:
  assumes "wellformed ws1 k ws2 ws3 v ws4"
  shows "parse_line2 flt fn st (kv_line ws1 k ws2 ws3 v ws4) =
     (case flt v of
        Some x \<Rightarrow> (AList.update k x (fst st), snd st)
      | None \<Rightarrow> (AList.update k NaN (fst st), snd st @ [WarnNotFloat v k fn]))"
proof -
  from assms have "k \<in> set metric_keys" by (simp add: wellformed_def)
  then show ?thesis
    by (simp add: parse_line2_def key_value2_line [OF assms])
qed

lemma parse_line2_other_key:
  assumes "map_option fst (key_value2 l) \<noteq> Some k"
  shows "map_of (fst (parse_line2 flt fn st l)) k = map_of (fst st) k"
proof (cases "key_value2 l")
  case None
  then show ?thesis by (simp add: parse_line2_def)
next
  case (Some kv)
  obtain key v where kv: "kv = (key, v)" by (cases kv)
  with Some assms have "key \<noteq> k" by simp
  with Some kv show ?thesis
    by (cases "flt v") (simp_all add: parse_line2_def update_conv')
qed

lemma parse_lines2_other_key:
  "\<forall>l\<in>set ls. map_option fst (key_value2 l) \<noteq> Some k \<Longrightarrow>
     map_of (fst (foldl (parse_line2 flt fn) st ls)) k = map_of (fst st) k"
proof (induction ls arbitrary: st)
  case Nil
  show ?case by simp
next
  case (Cons l ls)
  then have "map_of (fst (foldl (parse_line2 flt fn) (parse_line2 flt fn st l) ls)) k
           = map_of (fst (parse_line2 flt fn st l)) k"
    by simp
  also have "\<dots> = map_of (fst st) k"
    using Cons.prems by (simp add: parse_line2_other_key)
  finally show ?case by simp
qed

lemma keys_mono_parse_line2:
  "fst ` set (fst st) \<subseteq> fst ` set (fst (parse_line2 flt fn st l))"
proof (cases "key_value2 l")
  case None
  then show ?thesis by (simp add: parse_line2_def)
next
  case (Some kv)
  obtain key v where kv: "kv = (key, v)" by (cases kv)
  with Some show ?thesis
    by (cases "flt v") (auto simp: parse_line2_def dom_update)
qed

lemma keys_mono_parse_lines2:
  "fst ` set (fst st) \<subseteq> fst ` set (fst (foldl (parse_line2 flt fn) st ls))"
proof (induction ls arbitrary: st)
  case Nil
  show ?case by simp
next
  case (Cons l ls)
  have "fst ` set (fst st) \<subseteq> fst ` set (fst (parse_line2 flt fn st l))"
    by (rule keys_mono_parse_line2)
  also have "\<dots> \<subseteq> fst ` set (fst (foldl (parse_line2 flt fn) (parse_line2 flt fn st l) ls))"
    by (rule Cons.IH)
  finally show ?case by simp
qed

lemma msgs_mono_parse_line2: "set (snd st) \<subseteq> set (snd (parse_line2 flt fn st l))"
proof (cases "key_value2 l")
  case None
  then show ?thesis by (simp add: parse_line2_def)
next
  case (Some kv)
  obtain key v where kv: "kv = (key, v)" by (cases kv)
  with Some show ?thesis
    by (cases "flt v") (auto simp: parse_line2_def)
qed

lemma msgs_mono_parse_lines2:
  "set (snd st) \<subseteq> set (snd (foldl (parse_line2 flt fn) st ls))"
proof (induction ls arbitrary: st)
  case Nil
  show ?case by simp
next
  case (Cons l ls)
  have "set (snd st) \<subseteq> set (snd (parse_line2 flt fn st l))"
    by (rule msgs_mono_parse_line2)
  also have "\<dots> \<subseteq> set (snd (foldl (parse_line2 flt fn) (parse_line2 flt fn st l) ls))"
    by (rule Cons.IH)
  finally show ?case by simp
qed

lemma parse_recognised:
  assumes "\<not> unrecognised2 path" "read path = Some ls"
    "fst (foldl (parse_line2 flt (basename path)) ([], []) ls) \<noteq> []"
  shows "\<exists>item. parse_message_stats_file flt read path
           = (Some item, snd (foldl (parse_line2 flt (basename path)) ([], []) ls)) \<and>
         metrics item = fst (foldl (parse_line2 flt (basename path)) ([], []) ls)"
proof -
  from assms(1) obtain ds where "match_scenario (basename path) = Some ds"
    by (auto simp: unrecognised2_def Let_def)
  with assms show ?thesis
    by (simp add: parse_message_stats_file_def unrecognised2_def Let_def)
qed

lemma parse_file2_line:
  assumes wf: "wellformed ws1 k ws2 ws3 v ws4"
    and rec: "\<not> unrecognised2 path"
    and rd: "read path = Some (pre @ kv_line ws1 k ws2 ws3 v ws4 # post)"
  shows "\<exists>item msgs. parse_message_stats_file flt read path = (Some item, msgs) \<and>
           metrics item = fst (foldl (parse_line2 flt (basename path)) ([], [])
                                 (pre @ kv_line ws1 k ws2 ws3 v ws4 # post)) \<and>
           k \<in> fst ` set (metrics item) \<and>
           (flt v = None \<longrightarrow> WarnNotFloat v k (basename path) \<in> set msgs) \<and>
           ((\<forall>l\<in>set post. map_option fst (key_value2 l) \<noteq> Some k) \<longrightarrow>
              map_of (metrics item) k = Some (case flt v of Some x \<Rightarrow> x | None \<Rightarrow> NaN))"
proof -
  let ?f = "parse_line2 flt (basename path)"
  let ?raw = "kv_line ws1 k ws2 ws3 v ws4"
  let ?s0 = "foldl ?f ([], []) pre"
  let ?s1 = "?f ?s0 ?raw"
  let ?r = "foldl ?f ([], []) (pre @ ?raw # post)"
  have r: "?r = foldl ?f ?s1 post" by simp
  have s1: "?s1 = (case flt v of
        Some x \<Rightarrow> (AList.update k x (fst ?s0), snd ?s0)
      | None \<Rightarrow> (AList.update k NaN (fst ?s0), snd ?s0 @ [WarnNotFloat v k (basename path)]))"
    using wf by (rule parse_line2_wellformed)
  have k1: "k \<in> fst ` set (fst ?s1)"
    unfolding s1 by (cases "flt v") (simp_all add: dom_update)
  have "fst ` set (fst ?s1) \<subseteq> fst ` set (fst (foldl ?f ?s1 post))"
    by (rule keys_mono_parse_lines2)
  with k1 have kr: "k \<in> fst ` set (fst ?r)" unfolding r by blast
  then have ne: "fst ?r \<noteq> []" by auto
  from parse_recognised [of path read "pre @ ?raw # post" flt, OF rec rd ne] obtain item where
    item: "parse_message_stats_file flt read path = (Some item, snd ?r)"
    and m: "metrics item = fst ?r"
    by blast
  have w: "WarnNotFloat v k (basename path) \<in> set (snd ?r)" if "flt v = None"
  proof -
    from that have "WarnNotFloat v k (basename path) \<in> set (snd ?s1)"
      unfolding s1 by simp
    moreover have "set (snd ?s1) \<subseteq> set (snd (foldl ?f ?s1 post))"
      by (rule msgs_mono_parse_lines2)
    ultimately show ?thesis unfolding r by blast
  qed
  have val: "map_of (fst ?r) k = Some (case flt v of Some x \<Rightarrow> x | None \<Rightarrow> NaN)"
    if "\<forall>l\<in>set post. map_option fst (key_value2 l) \<noteq> Some k"
  proof -
    have "map_of (fst (foldl ?f ?s1 post)) k = map_of (fst ?s1) k"
      using that by (rule parse_lines2_other_key)
    also have "\<dots> = Some (case flt v of Some x \<Rightarrow> x | None \<Rightarrow> NaN)"
      unfolding s1 by (cases "flt v") (simp_all add: update_conv')
    finally show ?thesis unfolding r .
  qed
  from item m kr w val show ?thesis by auto
qed

lemma stored_set_metric:
  "stored (set_metric p sc k x d) p' sc' k' =
     (if p' = p \<and> sc' = sc \<and> k' = k \<and> initialised d p sc then Some x else stored d p' sc' k')"
  by (auto simp: stored_def set_metric_def initialised_def map_of_map_entry update_conv'
      split: option.splits)

lemma initialised_set_metric:
  "initialised (set_metric p sc k x d) p' sc' = initialised d p' sc'"
  by (auto simp: set_metric_def initialised_def map_of_map_entry update_conv'
      split: option.splits)

lemma initialised_init_entries: "initialised (init_entries p sc d) p sc"
proof -
  let ?d1 = "if p \<in> fst ` set d then d else AList.update p [] d"
  have "map_of ?d1 p \<noteq> None"
    by (auto simp: update_conv' map_of_eq_None_iff dom_update)
  then obtain scs where "map_of ?d1 p = Some scs" by blast
  then show ?thesis
    by (auto simp: init_entries_def Let_def initialised_def map_of_map_entry update_conv'
        map_of_eq_None_iff dom_update split: option.splits)
qed

lemma parse_line1_wellformed:
  assumes "wellformed ws1 k ws2 ws3 v ws4"
  shows "parse_line1 flt bn p sc st (kv_line ws1 k ws2 ws3 v ws4) =
     (case flt v of
        Some x \<Rightarrow> (set_metric p sc k x (fst st), snd st)
      | None \<Rightarrow> (set_metric p sc k NaN (fst st), snd st @ [WarnNotFloat v k bn]))"
proof -
  from assms have "k \<in> set metric_keys" by (simp add: wellformed_def)
  then show ?thesis
    by (simp add: parse_line1_def key_value1_line [OF assms])
qed

lemma parse_line1_other_key:
  assumes "map_option fst (key_value1 l) \<noteq> Some k"
  shows "stored (fst (parse_line1 flt bn p sc st l)) p' sc' k = stored (fst st) p' sc' k"
proof (cases "key_value1 l")
  case None
  then show ?thesis by (simp add: parse_line1_def)
next
  case (Some kv)
  obtain key v where kv: "kv = (key, v)" by (cases kv)
  with Some assms have "key \<noteq> k" by simp
  with Some kv show ?thesis
    by (cases "flt v") (simp_all add: parse_line1_def stored_set_metric)
qed

lemma parse_lines1_other_key:
  "\<forall>l\<in>set ls. map_option fst (key_value1 l) \<noteq> Some k \<Longrightarrow>
     stored (fst (foldl (parse_line1 flt bn p sc) st ls)) p' sc' k = stored (fst st) p' sc' k"
proof (induction ls arbitrary: st)
  case Nil
  show ?case by simp
next
  case (Cons l ls)
  then have "stored (fst (foldl (parse_line1 flt bn p sc) (parse_line1 flt bn p sc st l) ls)) p' sc' k
           = stored (fst (parse_line1 flt bn p sc st l)) p' sc' k"
    by simp
  also have "\<dots> = stored (fst st) p' sc' k"
    using Cons.prems by (simp add: parse_line1_other_key)
  finally show ?case by simp
qed

lemma initialised_parse_line1:
  "initialised (fst (parse_line1 flt bn p sc st l)) p' sc' = initialised (fst st) p' sc'"
proof (cases "key_value1 l")
  case None
  then show ?thesis by (simp add: parse_line1_def)
next
  case (Some kv)
  obtain key v where kv: "kv = (key, v)" by (cases kv)
  with Some show ?thesis
    by (cases "flt v") (simp_all add: parse_line1_def initialised_set_metric)
qed

lemma initialised_parse_lines1:
  "initialised (fst (foldl (parse_line1 flt bn p sc) st ls)) p' sc' = initialised (fst st) p' sc'"
  by (induction ls arbitrary: st) (simp_all add: initialised_parse_line1)

lemma process_file1_read:
  assumes "match_filename (basename f) = Some (g1, g2)" "read f = Some ls"
  shows "process_file1 flt read st f =
     foldl (parse_line1 flt (basename f) (protocol_name_of g1) (nat_of_digits g2))
       (init_entries (protocol_name_of g1) (nat_of_digits g2) (fst st),
        snd st @ [Processing (basename f)]) ls"
  using assms by (simp add: process_file1_def Let_def)

lemma process_file1_line:
  assumes wf: "wellformed ws1 k ws2 ws3 v ws4"
    and mt: "match_filename (basename f) = Some (g1, g2)"
    and rd: "read f = Some (pre @ kv_line ws1 k ws2 ws3 v ws4 # post)"
  shows "(flt v = None \<longrightarrow> WarnNotFloat v k (basename f) \<in> set (snd (process_file1 flt read st f))) \<and>
         ((\<forall>l\<in>set post. map_option fst (key_value1 l) \<noteq> Some k) \<longrightarrow>
            stored (fst (process_file1 flt read st f)) (protocol_name_of g1) (nat_of_digits g2) k
              = Some (case flt v of Some x \<Rightarrow> x | None \<Rightarrow> NaN))"
proof -
  let ?p = "protocol_name_of g1"
  let ?sc = "nat_of_digits g2"
  let ?f = "parse_line1 flt (basename f) ?p ?sc"
  let ?raw = "kv_line ws1 k ws2 ws3 v ws4"
  let ?i = "(init_entries ?p ?sc (fst st), snd st @ [Processing (basename f)])"
  let ?s0 = "foldl ?f ?i pre"
  let ?s1 = "?f ?s0 ?raw"
  have r: "process_file1 flt read st f = foldl ?f ?s1 post"
    using process_file1_read [of f g1 g2 read "pre @ ?raw # post" flt st, OF mt rd] by simp
  have s1: "?s1 = (case flt v of
        Some x \<Rightarrow> (set_metric ?p ?sc k x (fst ?s0), snd ?s0)
      | None \<Rightarrow> (set_metric ?p ?sc k NaN (fst ?s0), snd ?s0 @ [WarnNotFloat v k (basename f)]))"
    using wf by (rule parse_line1_wellformed)
  have ini: "initialised (fst ?s0) ?p ?sc"
    by (simp add: initialised_parse_lines1 initialised_init_entries)
  have w: "WarnNotFloat v k (basename f) \<in> set (snd (process_file1 flt read st f))" if "flt v = None"
  proof -
    from that have "WarnNotFloat v k (basename f) \<in> set (snd ?s1)"
      unfolding s1 by simp
    moreover have "set (snd ?s1) \<subseteq> set (snd (foldl ?f ?s1 post))"
      by (rule msgs_mono_parse_lines1)
    ultimately show ?thesis unfolding r by blast
  qed
  have val: "stored (fst (process_file1 flt read st f)) ?p ?sc k
               = Some (case flt v of Some x \<Rightarrow> x | None \<Rightarrow> NaN)"
    if "\<forall>l\<in>set post. map_option fst (key_value1 l) \<noteq> Some k"
  proof -
    have "stored (fst (foldl ?f ?s1 post)) ?p ?sc k = stored (fst ?s1) ?p ?sc k"
      using that by (rule parse_lines1_other_key)
    also have "\<dots> = Some (case flt v of Some x \<Rightarrow> x | None \<Rightarrow> NaN)"
      unfolding s1 using ini by (cases "flt v") (simp_all add: stored_set_metric)
    finally show ?thesis unfolding r .
  qed
  from w val show ?thesis by blast
qed

lemma file_message_kept:
  assumes "f \<in> set fs" "\<And>st. W \<in> set (snd (process_file1 flt read st f))"
  shows "W \<in> set (snd (foldl (process_file1 flt read) st0 fs))"
  using assms(1)
proof (induction fs arbitrary: st0)
  case Nil
  then show ?case by simp
next
  case (Cons a fs)
  show ?case
  proof (cases "f = a")
    case True
    have "W \<in> set (snd (process_file1 flt read st0 a))"
      unfolding True [symmetric] by (rule assms(2))
    moreover have "set (snd (process_file1 flt read st0 a))
        \<subseteq> set (snd (foldl (process_file1 flt read) (process_file1 flt read st0 a) fs))"
      by (rule msgs_mono_process_files1)
    ultimately show ?thesis by auto
  next
    case False
    with Cons show ?thesis by simp
  qed
qed

text \<open>
  C2, as amended. Take a well-formed line \<^verbatim>\<open>key: value\<close> whose key is in the whitelist
  and whose value text \<open>v\<close> converts to the float \<open>x\<close>, in a file with a recognised
  name, and let no later line of the file have the same key. Then the value stored
  under the key when the file has been parsed is \<open>x\<close> itself, the result of the
  conversion with nothing done to it: in the glob-based script under the protocol and
  the scenario of the file, in the other script in the metrics of the record returned
  for the file. (When a later line has the same key, the later line wins.)
\<close>

theorem stored_metric_is_parsed_float:
  "wellformed ws1 k ws2 ws3 v ws4 \<and> flt v = Some x \<longrightarrow>
     (match_filename (basename f) = Some (g1, g2) \<and>
      read f = Some (pre @ kv_line ws1 k ws2 ws3 v ws4 # post) \<and>
      (\<forall>l\<in>set post. map_option fst (key_value1 l) \<noteq> Some k) \<longrightarrow>
        stored (fst (process_file1 flt read st f)) (protocol_name_of g1) (nat_of_digits g2) k
          = Some x) \<and>
     (\<not> unrecognised2 path \<and>
      read path = Some (pre @ kv_line ws1 k ws2 ws3 v ws4 # post) \<and>
      (\<forall>l\<in>set post. map_option fst (key_value2 l) \<noteq> Some k) \<longrightarrow>
        (\<exists>item msgs. parse_message_stats_file flt read path = (Some item, msgs) \<and>
                     map_of (metrics item) k = Some x))"
proof (intro impI conjI; elim conjE)
  assume wf: "wellformed ws1 k ws2 ws3 v ws4" and x: "flt v = Some x"
    and mt: "match_filename (basename f) = Some (g1, g2)"
    and rd: "read f = Some (pre @ kv_line ws1 k ws2 ws3 v ws4 # post)"
    and last: "\<forall>l\<in>set post. map_option fst (key_value1 l) \<noteq> Some k"
  from process_file1_line [where read = read and flt = flt and st = st, OF wf mt rd] last x
  show "stored (fst (process_file1 flt read st f)) (protocol_name_of g1) (nat_of_digits g2) k = Some x"
    by simp
next
  assume wf: "wellformed ws1 k ws2 ws3 v ws4" and x: "flt v = Some x"
    and rec: "\<not> unrecognised2 path"
    and rd: "read path = Some (pre @ kv_line ws1 k ws2 ws3 v ws4 # post)"
    and last: "\<forall>l\<in>set post. map_option fst (key_value2 l) \<noteq> Some k"
  from parse_file2_line [where read = read and flt = flt, OF wf rec rd] last x
  show "\<exists>item msgs. parse_message_stats_file flt read path = (Some item, msgs) \<and>
                     map_of (metrics item) k = Some x"
    by auto
qed

text \<open>
  What both parsers do with a well-formed line whose key is in the whitelist and on
  whose value text the conversion raises ValueError: the line stores NaN under the key
  and appends a warning naming the value, the key and the file; the remaining lines of
  the file are parsed from that state, the file is not dropped (the second script
  returns its record, with the key among its metrics), the warning is still in the
  output after all files are parsed, and the stored value is NaN unless a later line
  sets the key.
\<close>

lemma non_numeric_value_recorded_as_nan:
  "wellformed ws1 k ws2 ws3 v ws4 \<and> flt v = None \<longrightarrow>
     parse_line1 flt bn p sc st1 (kv_line ws1 k ws2 ws3 v ws4)
       = (set_metric p sc k NaN (fst st1), snd st1 @ [WarnNotFloat v k bn]) \<and>
     parse_line2 flt bn st2 (kv_line ws1 k ws2 ws3 v ws4)
       = (AList.update k NaN (fst st2), snd st2 @ [WarnNotFloat v k bn]) \<and>
     (match_filename (basename f) = Some (g1, g2) \<and>
      read f = Some (pre @ kv_line ws1 k ws2 ws3 v ws4 # post) \<longrightarrow>
        process_file1 flt read st f
          = foldl (parse_line1 flt (basename f) (protocol_name_of g1) (nat_of_digits g2))
              (init_entries (protocol_name_of g1) (nat_of_digits g2) (fst st),
               snd st @ [Processing (basename f)])
              (pre @ kv_line ws1 k ws2 ws3 v ws4 # post) \<and>
        WarnNotFloat v k (basename f) \<in> set (snd (process_file1 flt read st f)) \<and>
        WarnNotFloat v k (basename f) \<in> set (snd (parse_files1 flt read (fs @ f # fs'))) \<and>
        ((\<forall>l\<in>set post. map_option fst (key_value1 l) \<noteq> Some k) \<longrightarrow>
           stored (fst (process_file1 flt read st f)) (protocol_name_of g1) (nat_of_digits g2) k
             = Some NaN)) \<and>
     (\<not> unrecognised2 path \<and>
      read path = Some (pre @ kv_line ws1 k ws2 ws3 v ws4 # post) \<longrightarrow>
        (\<exists>item msgs. parse_message_stats_file flt read path = (Some item, msgs) \<and>
           metrics item = fst (foldl (parse_line2 flt (basename path)) ([], [])
                                 (pre @ kv_line ws1 k ws2 ws3 v ws4 # post)) \<and>
           k \<in> fst ` set (metrics item) \<and>
           WarnNotFloat v k (basename path) \<in> set msgs \<and>
           ((\<forall>l\<in>set post. map_option fst (key_value2 l) \<noteq> Some k) \<longrightarrow>
              map_of (metrics item) k = Some NaN)))"
proof (intro impI, elim conjE, intro conjI impI; (elim conjE)?)
  assume wf: "wellformed ws1 k ws2 ws3 v ws4" and x: "flt v = None"
  show "parse_line1 flt bn p sc st1 (kv_line ws1 k ws2 ws3 v ws4)
       = (set_metric p sc k NaN (fst st1), snd st1 @ [WarnNotFloat v k bn])"
    using x by (simp add: parse_line1_wellformed [OF wf])
  show "parse_line2 flt bn st2 (kv_line ws1 k ws2 ws3 v ws4)
       = (AList.update k NaN (fst st2), snd st2 @ [WarnNotFloat v k bn])"
    using x by (simp add: parse_line2_wellformed [OF wf])
  {
    assume mt: "match_filename (basename f) = Some (g1, g2)"
      and rd: "read f = Some (pre @ kv_line ws1 k ws2 ws3 v ws4 # post)"
    show "process_file1 flt read st f
          = foldl (parse_line1 flt (basename f) (protocol_name_of g1) (nat_of_digits g2))
              (init_entries (protocol_name_of g1) (nat_of_digits g2) (fst st),
               snd st @ [Processing (basename f)])
              (pre @ kv_line ws1 k ws2 ws3 v ws4 # post)"
      using process_file1_read [where read = read, OF mt rd] .
    have w: "WarnNotFloat v k (basename f) \<in> set (snd (process_file1 flt read s f))" for s
      using process_file1_line [where read = read and flt = flt and st = s, OF wf mt rd] x by simp
    show "WarnNotFloat v k (basename f) \<in> set (snd (process_file1 flt read st f))"
      by (rule w)
    have "f \<in> set (sort (fs @ f # fs'))" by simp
    then show "WarnNotFloat v k (basename f) \<in> set (snd (parse_files1 flt read (fs @ f # fs')))"
      unfolding parse_files1_def using w by (rule file_message_kept)
    show "stored (fst (process_file1 flt read st f)) (protocol_name_of g1) (nat_of_digits g2) k
             = Some NaN"
      if "\<forall>l\<in>set post. map_option fst (key_value1 l) \<noteq> Some k"
      using process_file1_line [where read = read and flt = flt and st = st, OF wf mt rd] x that by simp
  }
  {
    assume rec: "\<not> unrecognised2 path"
      and rd: "read path = Some (pre @ kv_line ws1 k ws2 ws3 v ws4 # post)"
    from parse_file2_line [where read = read and flt = flt, OF wf rec rd] x
    show "\<exists>item msgs. parse_message_stats_file flt read path = (Some item, msgs) \<and>
           metrics item = fst (foldl (parse_line2 flt (basename path)) ([], [])
                                 (pre @ kv_line ws1 k ws2 ws3 v ws4 # post)) \<and>
           k \<in> fst ` set (metrics item) \<and>
           WarnNotFloat v k (basename path) \<in> set msgs \<and>
           ((\<forall>l\<in>set post. map_option fst (key_value2 l) \<noteq> Some k) \<longrightarrow>
              map_of (metrics item) k = Some NaN)"
      by auto
  }
qed

theorem stored_metric_counterexample:
  "wellformed [] ''delivery_prob'' [] '' '' ''0.5'' [] \<and>
   kv_line [] ''delivery_prob'' [] '' '' ''0.5'' [] = ''delivery_prob: 0.5'' \<and>
   example_float ''0.5'' = Some (Fin (1 / 2)) \<and>
   map_option metrics
     (fst (parse_message_stats_file example_float
             (\<lambda>p. Some [''delivery_prob: 0.5'', ''delivery_prob: 0.75''])
             ''/d/HaggleProphet100_MessageStatsReport.txt''))
     = Some [(''delivery_prob'', Fin (3 / 4))] \<and>
   fst (parse_files1 example_float (\<lambda>p. Some [''delivery_prob: 0.5'', ''delivery_prob: 0.75''])
          [''./prophettuned_scenario1_MessageStatsReport.txt''])
     = [(''Prophet'', [(1, [(''delivery_prob'', Fin (3 / 4))])])]"
  by code_simp

theorem stored_metric_is_parsed_float_witness:
  "wellformed [] ''delivery_prob'' [] '' '' ''0.5'' [CHR 0x0A] \<and>
   example_float ''0.5'' = Some (Fin (1 / 2)) \<and>
   match_filename (basename ''./prophettuned_scenario1_MessageStatsReport.txt'')
     = Some (''prophettuned'', ''1'') \<and>
   map_option fst (key_value1 ''latency_avg: 7'') = Some ''latency_avg'' \<and>
   map_option fst (key_value2 ''latency_avg: 7'') = Some ''latency_avg'' \<and>
   \<not> unrecognised2 ''/d/HaggleProphet100_MessageStatsReport.txt'' \<and>
   stored (fst (process_file1 example_float
                  (\<lambda>p. Some ([] @ kv_line [] ''delivery_prob'' [] '' '' ''0.5'' [CHR 0x0A]
                                # [''latency_avg: 7'']))
                  ([], []) ''./prophettuned_scenario1_MessageStatsReport.txt''))
      (protocol_name_of ''prophettuned'') (nat_of_digits ''1'') ''delivery_prob''
     = Some (Fin (1 / 2)) \<and>
   (\<exists>item msgs.
      parse_message_stats_file example_float
        (\<lambda>p. Some ([] @ kv_line [] ''delivery_prob'' [] '' '' ''0.5'' [CHR 0x0A]
                      # [''latency_avg: 7'']))
        ''/d/HaggleProphet100_MessageStatsReport.txt'' = (Some item, msgs) \<and>
      map_of (metrics item) ''delivery_prob'' = Some (Fin (1 / 2)))"
proof -
  have wf: "wellformed [] ''delivery_prob'' [] '' '' ''0.5'' [CHR 0x0A]"
    by code_simp
  have x: "example_float ''0.5'' = Some (Fin (1 / 2))"
    by code_simp
  have mt: "match_filename (basename ''./prophettuned_scenario1_MessageStatsReport.txt'')
     = Some (''prophettuned'', ''1'')"
    by code_simp
  have k1: "map_option fst (key_value1 ''latency_avg: 7'') = Some ''latency_avg''"
    by code_simp
  have k2: "map_option fst (key_value2 ''latency_avg: 7'') = Some ''latency_avg''"
    by code_simp
  have rec: "\<not> unrecognised2 ''/d/HaggleProphet100_MessageStatsReport.txt''"
    by code_simp
  show ?thesis
    using stored_metric_is_parsed_float
      [where ?ws1.0 = "[]" and k = "''delivery_prob''" and ?ws2.0 = "[]" and ?ws3.0 = "'' ''"
         and v = "''0.5''" and ?ws4.0 = "[CHR 0x0A]" and flt = example_float
         and x = "Fin (1 / 2)" and f = "''./prophettuned_scenario1_MessageStatsReport.txt''"
         and ?g1.0 = "''prophettuned''" and ?g2.0 = "''1''" and pre = "[]"
         and post = "[''latency_avg: 7'']" and st = "([], [])"
         and path = "''/d/HaggleProphet100_MessageStatsReport.txt''"
         and read = "\<lambda>p. Some ([] @ kv_line [] ''delivery_prob'' [] '' '' ''0.5'' [CHR 0x0A]
                                # [''latency_avg: 7''])"]
      wf x mt k1 k2 rec
    by simp
qed

lemma non_numeric_value_recorded_as_nan_example:
  "wellformed [] ''latency_avg'' '' '' '' '' ''n/a'' [CHR 0x0A] \<and>
   example_float ''n/a'' = None \<and>
   match_filename (basename ''./prophettuned_scenario1_MessageStatsReport.txt'')
     = Some (''prophettuned'', ''1'') \<and>
   \<not> unrecognised2 ''/d/HaggleProphet100_MessageStatsReport.txt'' \<and>
   WarnNotFloat ''n/a'' ''latency_avg''
       (basename ''./prophettuned_scenario1_MessageStatsReport.txt'')
     \<in> set (snd (parse_files1 example_float
                    (\<lambda>p. Some ([''delivery_prob: 0.5''] @
                                 kv_line [] ''latency_avg'' '' '' '' '' ''n/a'' [CHR 0x0A] # []))
                    ([] @ ''./prophettuned_scenario1_MessageStatsReport.txt'' # []))) \<and>
   stored (fst (process_file1 example_float
                  (\<lambda>p. Some ([''delivery_prob: 0.5''] @
                               kv_line [] ''latency_avg'' '' '' '' '' ''n/a'' [CHR 0x0A] # []))
                  ([], []) ''./prophettuned_scenario1_MessageStatsReport.txt''))
      (protocol_name_of ''prophettuned'') (nat_of_digits ''1'') ''latency_avg''
     = Some NaN \<and>
   (\<exists>item msgs.
      parse_message_stats_file example_float
        (\<lambda>p. Some ([''delivery_prob: 0.5''] @
                     kv_line [] ''latency_avg'' '' '' '' '' ''n/a'' [CHR 0x0A] # []))
        ''/d/HaggleProphet100_MessageStatsReport.txt'' = (Some item, msgs) \<and>
      WarnNotFloat ''n/a'' ''latency_avg'' (basename ''/d/HaggleProphet100_MessageStatsReport.txt'')
        \<in> set msgs \<and>
      map_of (metrics item) ''latency_avg'' = Some NaN)"
proof -
  have wf: "wellformed [] ''latency_avg'' '' '' '' '' ''n/a'' [CHR 0x0A]"
    by code_simp
  have x: "example_float ''n/a'' = None"
    by code_simp
  have mt: "match_filename (basename ''./prophettuned_scenario1_MessageStatsReport.txt'')
     = Some (''prophettuned'', ''1'')"
    by code_simp
  have rec: "\<not> unrecognised2 ''/d/HaggleProphet100_MessageStatsReport.txt''"
    by code_simp
  have last1: "\<forall>l\<in>set []. map_option fst (key_value1 l) \<noteq> Some ''latency_avg''"
    and last2: "\<forall>l\<in>set []. map_option fst (key_value2 l) \<noteq> Some ''latency_avg''"
    by simp_all
  show ?thesis
    using non_numeric_value_recorded_as_nan
      [where ?ws1.0 = "[]" and k = "''latency_avg''" and ?ws2.0 = "'' ''" and ?ws3.0 = "'' ''"
         and v = "''n/a''" and ?ws4.0 = "[CHR 0x0A]" and flt = example_float
         and bn = "''f.txt''" and ?st2.0 = "([], [])" and ?st1.0 = "([], [])"
         and p = "''Prophet''" and sc = 1
         and f = "''./prophettuned_scenario1_MessageStatsReport.txt''"
         and ?g1.0 = "''prophettuned''" and ?g2.0 = "''1''" and pre = "[''delivery_prob: 0.5'']"
         and post = "[]" and st = "([], [])" and fs = "[]" and fs' = "[]"
         and path = "''/d/HaggleProphet100_MessageStatsReport.txt''"
         and read = "\<lambda>p. Some ([''delivery_prob: 0.5''] @
                               kv_line [] ''latency_avg'' '' '' '' '' ''n/a'' [CHR 0x0A] # [])"]
      wf x mt rec last1 last2
    by blast
qed

lemma accepted_text_no_warning:
  assumes "wellformed ws1 k ws2 ws3 v ws4" "flt v = Some x"
  shows "parse_line1 flt bn p sc st1 (kv_line ws1 k ws2 ws3 v ws4)
           = (set_metric p sc k x (fst st1), snd st1)"
    and "parse_line2 flt bn st2 (kv_line ws1 k ws2 ws3 v ws4) = (AList.update k x (fst st2), snd st2)"
  using assms(2) by (simp_all add: parse_line1_wellformed [OF assms(1)] parse_line2_wellformed [OF assms(1)])

text \<open>
  C7 at a failing input. The value text \<^verbatim>\<open>NaN\<close> is not the text of a number, and the
  comment of line 72 of the glob-based script names it as a case of the handler that
  warns. But \<^verbatim>\<open>float('NaN')\<close> does not raise: it returns the float NaN. So for the line
  \<^verbatim>\<open>delivery_prob: NaN\<close> both parsers store NaN through the ordinary assignment and
  print no warning: the messages hold nothing but the "Processing" line.
\<close>

theorem nan_text_stored_without_warning:
  "key_value1 ''delivery_prob: NaN'' = Some (''delivery_prob'', ''NaN'') \<and>
   key_value2 ''delivery_prob: NaN'' = Some (''delivery_prob'', ''NaN'') \<and>
   example_float ''NaN'' = Some NaN \<and>
   parse_files1 example_float (\<lambda>p. Some [''delivery_prob: NaN''])
       [''./prophettuned_scenario1_MessageStatsReport.txt'']
     = ([(''Prophet'', [(1, [(''delivery_prob'', NaN)])])],
        [Processing ''prophettuned_scenario1_MessageStatsReport.txt'']) \<and>
   parse_entries example_float (\<lambda>p. True) (\<lambda>p. Some [''delivery_prob: NaN'']) ''/d''
       [''HaggleProphet100_MessageStatsReport.txt'']
     = ([\<lparr>prophet_type = ''Haggle Prophet'', scenario_number = 100,
           metrics = [(''delivery_prob'', NaN)]\<rparr>],
        [Processing ''/d/HaggleProphet100_MessageStatsReport.txt''])"
  by code_simp

subsection \<open>The x-axis of the glob-based comparison\<close>

lemma get_value_stored:
  "get_value d p sc mk = (case stored d p sc mk of None \<Rightarrow> NaN | Some v \<Rightarrow> v)"
  by (simp add: get_value_def stored_def split: option.splits)

lemma scenario_loop_values:
  "fst (foldl (scenario_step d p mk) acc scens)
     = fst acc @ map (\<lambda>sc. get_value d p sc mk) scens"
  by (induction scens arbitrary: acc) (simp_all add: scenario_step_def Let_def)

lemma scenario_loop_warnings:
  "set (snd (foldl (scenario_step d p mk) acc scens))
     = set (snd acc) \<union> {WarnMissing p sc mk | sc. sc \<in> set scens \<and> isnan (get_value d p sc mk)}"
proof (induction scens arbitrary: acc)
  case Nil
  show ?case by simp
next
  case (Cons s scens)
  have "set (snd (scenario_step d p mk acc s))
      = set (snd acc) \<union> (if isnan (get_value d p s mk) then {WarnMissing p s mk} else {})"
    by (auto simp: scenario_step_def Let_def)
  then show ?case
    unfolding foldl_Cons Cons.IH by auto
qed

lemma metric_loop_values:
  "map_of (fst (foldl (metric_step d scens p) acc mks)) mk
     = (if mk \<in> set mks then Some (map (\<lambda>sc. get_value d p sc mk) scens) else map_of (fst acc) mk)"
proof (induction mks arbitrary: acc)
  case Nil
  show ?case by simp
next
  case (Cons m mks)
  have "map_of (fst (metric_step d scens p acc m)) mk
      = (if mk = m then Some (map (\<lambda>sc. get_value d p sc mk) scens) else map_of (fst acc) mk)"
    by (simp add: metric_step_def Let_def update_conv' scenario_loop_values)
  then show ?case
    unfolding foldl_Cons Cons.IH by auto
qed

lemma metric_loop_warnings:
  "set (snd (foldl (metric_step d scens p) acc mks))
     = set (snd acc) \<union> {WarnMissing p sc mk | sc mk. mk \<in> set mks \<and> sc \<in> set scens \<and> isnan (get_value d p sc mk)}"
proof (induction mks arbitrary: acc)
  case Nil
  show ?case by simp
next
  case (Cons m mks)
  have "set (snd (metric_step d scens p acc m))
      = set (snd acc) \<union> {WarnMissing p sc m | sc. sc \<in> set scens \<and> isnan (get_value d p sc m)}"
    by (simp add: metric_step_def Let_def scenario_loop_warnings)
  then show ?case
    unfolding foldl_Cons Cons.IH by auto
qed

lemma proto_step_values:
  "\<exists>ms. map_of (fst (proto_step d scens acc p)) p = Some ms \<and>
        (\<forall>mk\<in>set metric_keys. map_of ms mk = Some (map (\<lambda>sc. get_value d p sc mk) scens))"
  by (simp add: proto_step_def Let_def update_conv' metric_loop_values)

lemma proto_step_other:
  "q \<noteq> p \<Longrightarrow> map_of (fst (proto_step d scens acc p)) q = map_of (fst acc) q"
  by (simp add: proto_step_def Let_def update_conv')

lemma proto_loop_values:
  "p \<in> set ps \<Longrightarrow>
     \<exists>ms. map_of (fst (foldl (proto_step d scens) acc ps)) p = Some ms \<and>
        (\<forall>mk\<in>set metric_keys. map_of ms mk = Some (map (\<lambda>sc. get_value d p sc mk) scens))"
proof (induction ps arbitrary: acc rule: rev_induct)
  case Nil
  then show ?case by simp
next
  case (snoc q ps)
  show ?case
  proof (cases "q = p")
    case True
    then show ?thesis
      using proto_step_values [of d scens "foldl (proto_step d scens) acc ps" p] by simp
  next
    case False
    with snoc.prems have "p \<in> set ps" by simp
    from snoc.IH [OF this, of acc] False show ?thesis
      by (simp add: proto_step_other)
  qed
qed

lemma proto_loop_warnings:
  "set (snd (foldl (proto_step d scens) acc ps))
     = set (snd acc) \<union> {WarnMissing p sc mk | p sc mk.
          p \<in> set ps \<and> mk \<in> set metric_keys \<and> sc \<in> set scens \<and> isnan (get_value d p sc mk)}"
proof (induction ps arbitrary: acc)
  case Nil
  show ?case by simp
next
  case (Cons q ps)
  have "set (snd (proto_step d scens acc q))
      = set (snd acc) \<union> {WarnMissing q sc mk | sc mk.
          mk \<in> set metric_keys \<and> sc \<in> set scens \<and> isnan (get_value d q sc mk)}"
    by (simp add: proto_step_def Let_def metric_loop_warnings)
  then show ?case
    unfolding foldl_Cons Cons.IH by auto
qed

lemma no_missing_parse_line1:
  "no_missing (snd st) \<Longrightarrow> no_missing (snd (parse_line1 flt bn p sc st l))"
proof (cases "key_value1 l")
  case None
  assume "no_missing (snd st)"
  with None show ?thesis by (simp add: parse_line1_def)
next
  case (Some kv)
  assume n: "no_missing (snd st)"
  obtain key v where kv: "kv = (key, v)" by (cases kv)
  with Some n show ?thesis
    by (cases "flt v") (auto simp: parse_line1_def no_missing_def)
qed

lemma no_missing_parse_lines1:
  "no_missing (snd st) \<Longrightarrow> no_missing (snd (foldl (parse_line1 flt bn p sc) st ls))"
  by (induction ls arbitrary: st) (simp_all add: no_missing_parse_line1)

lemma no_missing_process_file1:
  assumes "no_missing (snd st)"
  shows "no_missing (snd (process_file1 flt read st f))"
proof -
  have a: "no_missing (snd st @ [Processing (basename f)])"
    using assms by (simp add: no_missing_def)
  have "no_missing (snd (foldl (parse_line1 flt (basename f) p sc)
          (d, snd st @ [Processing (basename f)]) ls))" for p sc d ls
    by (rule no_missing_parse_lines1) (simp add: a)
  moreover have "no_missing (snd st @ [Processing (basename f), m])"
    if "m = WarnFilename (basename f) \<or> m = ErrReading f" for m
    using assms that by (auto simp: no_missing_def)
  ultimately show ?thesis
    by (simp add: process_file1_def Let_def split: option.split prod.split)
qed

lemma no_missing_process_files1:
  "no_missing (snd st) \<Longrightarrow> no_missing (snd (foldl (process_file1 flt read) st fs))"
  by (induction fs arbitrary: st) (simp_all add: no_missing_process_file1)

lemma no_missing_parse_files1: "no_missing (snd (parse_files1 flt read g))"
  unfolding parse_files1_def by (rule no_missing_process_files1) (simp add: no_missing_def)

lemma main1_ShownD:
  assumes "main1 flt read g = Shown fig msgs"
  shows "\<exists>scs. map_of (fst (parse_files1 flt read g)) (hd (sort (map fst (fst (parse_files1 flt read g))))) = Some scs \<and>
           scs \<noteq> [] \<and> fst (parse_files1 flt read g) \<noteq> [] \<and>
           protocols fig = sort (map fst (fst (parse_files1 flt read g))) \<and>
           scenarios fig = sort (map fst scs) \<and>
           plot_data fig = fst (foldl (proto_step (fst (parse_files1 flt read g)) (scenarios fig)) ([], []) (protocols fig)) \<and>
           missing_data_warnings fig = snd (foldl (proto_step (fst (parse_files1 flt read g)) (scenarios fig)) ([], []) (protocols fig)) \<and>
           msgs = snd (parse_files1 flt read g) @ missing_data_warnings fig"
proof -
  let ?d = "fst (parse_files1 flt read g)"
  from assms have g: "g \<noteq> []" and d: "?d \<noteq> []"
    by (auto simp: main1_def Let_def split: if_splits)
  from assms g d obtain scs where scs: "map_of ?d (hd (sort (map fst ?d))) = Some scs"
    by (cases "map_of ?d (hd (sort (map fst ?d)))") (simp_all add: main1_def Let_def)
  from assms g d scs have ne: "scs \<noteq> []"
    by (auto simp: main1_def Let_def split: if_splits)
  from assms g d scs ne show ?thesis
    by (auto simp: main1_def Let_def)
qed

text \<open>
  C9. When the glob-based script draws its plots, the protocols are the sorted keys of
  the parsed data and the scenario numbers on the x-axis are the sorted keys of the data
  of the first of these protocols, and of no other. Every series of every protocol
  holds one value per such scenario, read from the data with NaN as the default. A
  scenario that the first protocol lacks is not on the x-axis and no warning mentions
  it. Where a protocol lacks a value for a scenario of the x-axis, the value is NaN and
  a missing-data warning for that protocol, scenario and metric is printed.
\<close>

theorem scenarios_from_first_protocol:
  "main1 flt read g = Shown fig msgs \<longrightarrow>
     (let d = fst (parse_files1 flt read g)
      in protocols fig = sort (map fst d) \<and>
         (\<exists>scs. map_of d (hd (protocols fig)) = Some scs \<and>
                scenarios fig = sort (map fst scs) \<and>
                (\<forall>sc. sc \<notin> fst ` set scs \<longrightarrow>
                   sc \<notin> set (scenarios fig) \<and> (\<forall>p mk. WarnMissing p sc mk \<notin> set msgs))) \<and>
         (\<forall>p\<in>set (protocols fig). \<forall>mk\<in>set metric_keys.
            \<exists>ms. map_of (plot_data fig) p = Some ms \<and>
                 map_of ms mk = Some (map (\<lambda>sc. get_value d p sc mk) (scenarios fig))) \<and>
         (\<forall>p\<in>set (protocols fig). \<forall>sc\<in>set (scenarios fig). \<forall>mk\<in>set metric_keys.
            stored d p sc mk = None \<longrightarrow>
              get_value d p sc mk = NaN \<and> WarnMissing p sc mk \<in> set msgs))"
proof
  assume sh: "main1 flt read g = Shown fig msgs"
  let ?d = "fst (parse_files1 flt read g)"
  let ?r = "foldl (proto_step ?d (scenarios fig)) ([], []) (protocols fig)"
  from main1_ShownD [OF sh] obtain scs where
    scs: "map_of ?d (hd (sort (map fst ?d))) = Some scs"
    and protos: "protocols fig = sort (map fst ?d)"
    and scens: "scenarios fig = sort (map fst scs)"
    and pd: "plot_data fig = fst ?r"
    and mw: "missing_data_warnings fig = snd ?r"
    and msgs: "msgs = snd (parse_files1 flt read g) @ missing_data_warnings fig"
    by blast
  have warn: "set (missing_data_warnings fig)
      = {WarnMissing p sc mk | p sc mk. p \<in> set (protocols fig) \<and> mk \<in> set metric_keys \<and>
           sc \<in> set (scenarios fig) \<and> isnan (get_value ?d p sc mk)}"
    unfolding mw proto_loop_warnings by simp
  have nomiss: "WarnMissing p sc mk \<notin> set (snd (parse_files1 flt read g))" for p sc mk
    using no_missing_parse_files1 [of flt read g] by (simp add: no_missing_def)
  have omitted: "sc \<notin> set (scenarios fig) \<and> (\<forall>p mk. WarnMissing p sc mk \<notin> set msgs)"
    if "sc \<notin> fst ` set scs" for sc
  proof -
    from that have "sc \<notin> set (scenarios fig)" by (simp add: scens)
    then show ?thesis
      using nomiss by (auto simp: msgs warn)
  qed
  have series: "\<exists>ms. map_of (plot_data fig) p = Some ms \<and>
                 map_of ms mk = Some (map (\<lambda>sc. get_value ?d p sc mk) (scenarios fig))"
    if "p \<in> set (protocols fig)" "mk \<in> set metric_keys" for p mk
    using proto_loop_values [OF that(1), of ?d "scenarios fig" "([], [])"] that(2)
    unfolding pd by blast
  have filled: "get_value ?d p sc mk = NaN \<and> WarnMissing p sc mk \<in> set msgs"
    if "p \<in> set (protocols fig)" "sc \<in> set (scenarios fig)" "mk \<in> set metric_keys"
      "stored ?d p sc mk = None" for p sc mk
  proof -
    from that(4) have v: "get_value ?d p sc mk = NaN"
      by (simp add: get_value_stored)
    then have "WarnMissing p sc mk \<in> set (missing_data_warnings fig)"
      unfolding warn using that(1,2,3) by (auto simp: isnan_def)
    with v show ?thesis by (simp add: msgs)
  qed
  show "let d = ?d
      in protocols fig = sort (map fst d) \<and>
         (\<exists>scs. map_of d (hd (protocols fig)) = Some scs \<and>
                scenarios fig = sort (map fst scs) \<and>
                (\<forall>sc. sc \<notin> fst ` set scs \<longrightarrow>
                   sc \<notin> set (scenarios fig) \<and> (\<forall>p mk. WarnMissing p sc mk \<notin> set msgs))) \<and>
         (\<forall>p\<in>set (protocols fig). \<forall>mk\<in>set metric_keys.
            \<exists>ms. map_of (plot_data fig) p = Some ms \<and>
                 map_of ms mk = Some (map (\<lambda>sc. get_value d p sc mk) (scenarios fig))) \<and>
         (\<forall>p\<in>set (protocols fig). \<forall>sc\<in>set (scenarios fig). \<forall>mk\<in>set metric_keys.
            stored d p sc mk = None \<longrightarrow>
              get_value d p sc mk = NaN \<and> WarnMissing p sc mk \<in> set msgs)"
    unfolding Let_def
  proof (intro conjI)
    show "protocols fig = sort (map fst ?d)" by (rule protos)
    show "\<exists>scs. map_of ?d (hd (protocols fig)) = Some scs \<and>
                scenarios fig = sort (map fst scs) \<and>
                (\<forall>sc. sc \<notin> fst ` set scs \<longrightarrow>
                   sc \<notin> set (scenarios fig) \<and> (\<forall>p mk. WarnMissing p sc mk \<notin> set msgs))"
      using scs scens omitted unfolding protos by blast
    show "\<forall>p\<in>set (protocols fig). \<forall>mk\<in>set metric_keys.
            \<exists>ms. map_of (plot_data fig) p = Some ms \<and>
                 map_of ms mk = Some (map (\<lambda>sc. get_value ?d p sc mk) (scenarios fig))"
      using series by blast
    show "\<forall>p\<in>set (protocols fig). \<forall>sc\<in>set (scenarios fig). \<forall>mk\<in>set metric_keys.
            stored ?d p sc mk = None \<longrightarrow>
              get_value ?d p sc mk = NaN \<and> WarnMissing p sc mk \<in> set msgs"
      using filled by blast
  qed
qed

theorem scenarios_from_first_protocol_witness:
  "\<exists>fig msgs.
     main1 example_float (\<lambda>p. Some [''delivery_prob: 0.5''])
       [''./prophettuned_scenario1_MessageStatsReport.txt'',
        ''./prophetrandomtuned_scenario2_MessageStatsReport.txt''] = Shown fig msgs \<and>
     protocols fig = [''Prophet'', ''Prophet Random''] \<and>
     scenarios fig = [1] \<and>
     WarnMissing ''Prophet Random'' 1 ''delivery_prob'' \<in> set msgs \<and>
     (\<forall>p mk. WarnMissing p 2 mk \<notin> set msgs)"
proof -
  let ?m = "main1 example_float (\<lambda>p. Some [''delivery_prob: 0.5''])
       [''./prophettuned_scenario1_MessageStatsReport.txt'',
        ''./prophetrandomtuned_scenario2_MessageStatsReport.txt'']"
  let ?d = "fst (parse_files1 example_float (\<lambda>p. Some [''delivery_prob: 0.5''])
       [''./prophettuned_scenario1_MessageStatsReport.txt'',
        ''./prophetrandomtuned_scenario2_MessageStatsReport.txt''])"
  have e1: "map_option scenarios (figures ?m) = Some [1]"
    by code_simp
  have e2: "map_option protocols (figures ?m) = Some [''Prophet'', ''Prophet Random'']"
    by code_simp
  have e3: "stored ?d ''Prophet Random'' 1 ''delivery_prob'' = None"
    by code_simp
  have e4: "map_of ?d ''Prophet'' = Some [(1, [(''delivery_prob'', Fin (1 / 2))])]"
    by code_simp
  from e1 obtain fig msgs where sh: "?m = Shown fig msgs"
    by (cases ?m) auto
  with e1 e2 have sc: "scenarios fig = [1]" and pr: "protocols fig = [''Prophet'', ''Prophet Random'']"
    by simp_all
  have mk: "''delivery_prob'' \<in> set metric_keys"
    by (simp add: metric_keys_def)
  note T = scenarios_from_first_protocol
      [of example_float "\<lambda>p. Some [''delivery_prob: 0.5'']"
          "[''./prophettuned_scenario1_MessageStatsReport.txt'',
            ''./prophetrandomtuned_scenario2_MessageStatsReport.txt'']" fig msgs,
       unfolded Let_def, rule_format, OF sh]
  from T have w: "WarnMissing ''Prophet Random'' 1 ''delivery_prob'' \<in> set msgs"
    using e3 mk by (simp add: sc pr)
  from T obtain scs where "map_of ?d (hd (protocols fig)) = Some scs"
    and om: "\<forall>sc. sc \<notin> fst ` set scs \<longrightarrow> (\<forall>p mk. WarnMissing p sc mk \<notin> set msgs)"
    by blast
  with e4 pr have "scs = [(1, [(''delivery_prob'', Fin (1 / 2))])]" by simp
  with om have "\<forall>p mk. WarnMissing p 2 mk \<notin> set msgs" by simp
  with sh sc pr w show ?thesis by blast
qed

subsection \<open>Order of the group keys and of the scenario numbers\<close>

lemma mset_concat_map_perm:
  assumes "mset xs = mset ys"
  shows "mset (concat (map f xs)) = mset (concat (map f ys))"
proof -
  have "mset (concat (map f zs)) = sum_mset (image_mset (\<lambda>z. mset (f z)) (mset zs))" for zs
    by (induction zs) simp_all
  then show ?thesis using assms by simp
qed

lemma series_of_append_point:
  "series_of (append_point pt sc pd kv) pt' mk' =
     series_of pd pt' mk' @ (if pt' = pt \<and> mk' = fst kv then [(sc, snd kv)] else [])"
  by (auto simp: series_of_def append_point_def map_of_map_default split: option.splits)

lemma series_of_append_points:
  "series_of (foldl (append_point pt sc) pd kvs) pt' mk' =
     series_of pd pt' mk' @
       (if pt' = pt then map (\<lambda>kv. (sc, snd kv)) (filter (\<lambda>kv. fst kv = mk') kvs) else [])"
  by (induction kvs arbitrary: pd) (simp_all add: series_of_append_point)

lemma series_of_add_items:
  "series_of (foldl add_item pd items) pt mk = series_of pd pt mk @ points items pt mk"
proof (induction items arbitrary: pd)
  case Nil
  show ?case by (simp add: points_def)
next
  case (Cons i items)
  show ?case
    unfolding foldl_Cons Cons.IH
    by (simp add: add_item_def series_of_append_points points_def)
qed

lemma map_of_map_values:
  "map_of (map (\<lambda>(k, v). (k, f v)) xs) k = map_option f (map_of xs k)"
  by (induction xs) auto

lemma series_of_sort_series:
  "series_of (sort_series pd) pt mk = sort_key fst (series_of pd pt mk)"
  by (simp add: series_of_def sort_series_def map_of_map_values split: option.splits)

lemma series_of_reshape:
  "series_of (reshape items) pt mk = sort_key fst (points items pt mk)"
  unfolding reshape_def series_of_sort_series series_of_add_items
  by (simp add: series_of_def)

lemma keys_sort_series: "map fst (sort_series pd) = map fst pd"
  by (induction pd) (auto simp: sort_series_def)

lemma keys_append_point: "fst ` set (append_point pt sc pd kv) = insert pt (fst ` set pd)"
  by (simp add: append_point_def dom_map_default)

lemma keys_append_points:
  "fst ` set (foldl (append_point pt sc) pd kvs) = (if kvs = [] then {} else {pt}) \<union> fst ` set pd"
  by (induction kvs arbitrary: pd) (auto simp: keys_append_point)

lemma keys_add_items:
  "fst ` set (foldl add_item pd items)
     = fst ` set pd \<union> {prophet_type i | i. i \<in> set items \<and> metrics i \<noteq> []}"
proof (induction items arbitrary: pd)
  case Nil
  show ?case by simp
next
  case (Cons i items)
  show ?case
    unfolding foldl_Cons Cons.IH
    by (auto simp: add_item_def keys_append_points)
qed

lemma distinct_append_point:
  "distinct (map fst pd) \<Longrightarrow> distinct (map fst (append_point pt sc pd kv))"
  by (simp add: append_point_def distinct_map_default)

lemma distinct_append_points:
  "distinct (map fst pd) \<Longrightarrow> distinct (map fst (foldl (append_point pt sc) pd kvs))"
  by (induction kvs arbitrary: pd) (simp_all add: distinct_append_point)

lemma distinct_add_items:
  "distinct (map fst pd) \<Longrightarrow> distinct (map fst (foldl add_item pd items))"
  by (induction items arbitrary: pd) (simp_all add: add_item_def distinct_append_points)

lemma keys_reshape:
  "set (map fst (reshape items)) = {prophet_type i | i. i \<in> set items \<and> metrics i \<noteq> []}"
  "distinct (map fst (reshape items))"
  by (simp_all add: reshape_def keys_sort_series keys_add_items distinct_add_items)

lemma types_reshape_perm:
  assumes "mset items1 = mset items2"
  shows "sort (map fst (reshape items1)) = sort (map fst (reshape items2))"
proof -
  from assms have "set items1 = set items2" by (rule mset_eq_setD)
  then have "set (map fst (reshape items1)) = set (map fst (reshape items2))"
    unfolding keys_reshape by simp
  then have "mset (map fst (reshape items1)) = mset (map fst (reshape items2))"
    using set_eq_iff_mset_eq_distinct [OF keys_reshape(2) [of items1] keys_reshape(2) [of items2]]
    by blast
  then show ?thesis by (rule sort_perm)
qed

lemma distinct_parse_line2:
  assumes "distinct (map fst (fst st))"
  shows "distinct (map fst (fst (parse_line2 flt fn st l)))"
proof (cases "key_value2 l")
  case None
  with assms show ?thesis by (simp add: parse_line2_def)
next
  case (Some kv)
  obtain key v where kv: "kv = (key, v)" by (cases kv)
  with Some assms show ?thesis
    by (cases "flt v") (simp_all add: parse_line2_def distinct_update)
qed

lemma distinct_parse_lines2:
  "distinct (map fst (fst st)) \<Longrightarrow> distinct (map fst (fst (foldl (parse_line2 flt fn) st ls)))"
  by (induction ls arbitrary: st) (simp_all add: distinct_parse_line2)

lemma distinct_parsed_metrics:
  assumes "fst (parse_message_stats_file flt read path) = Some item"
  shows "distinct (map fst (metrics item))"
proof -
  have d: "distinct (map fst (fst (foldl (parse_line2 flt (basename path)) ([], []) ls)))" for ls
    by (rule distinct_parse_lines2) simp
  from assms have "\<exists>ls. metrics item = fst (foldl (parse_line2 flt (basename path)) ([], []) ls)"
    by (auto simp: parse_message_stats_file_def Let_def split: if_splits option.splits)
  with d show ?thesis by auto
qed

lemma entry_items_parsed:
  assumes "i \<in> set (entry_items flt exists read dir e)"
  shows "fst (parse_message_stats_file flt read (resolve dir e)) = Some i"
  using assms unfolding entry_items_def
  by (cases "exists (resolve dir e)";
      cases "fst (parse_message_stats_file flt read (resolve dir e))") simp_all

lemma distinct_entry_metrics:
  "i \<in> set (entry_items flt exists read dir e) \<Longrightarrow> distinct (map fst (metrics i))"
  using entry_items_parsed distinct_parsed_metrics by blast

lemma distinct_all_parsed_metrics:
  "i \<in> set (fst (parse_entries flt exists read dir es)) \<Longrightarrow> distinct (map fst (metrics i))"
  unfolding parse_entries_items using distinct_entry_metrics by auto

lemma set_points:
  "set (points items pt mk)
     = {(scenario_number i, v) | i v. i \<in> set items \<and> prophet_type i = pt \<and> (mk, v) \<in> set (metrics i)}"
  by (auto simp: points_def) force

lemma inj_on_points:
  assumes keys: "distinct (map file_key items)"
    and ms: "\<forall>i\<in>set items. distinct (map fst (metrics i))"
  shows "inj_on fst (set (points items pt mk))"
proof (rule inj_onI)
  fix a b
  assume a: "a \<in> set (points items pt mk)" and b: "b \<in> set (points items pt mk)"
    and eq: "fst a = fst b"
  from a obtain i v where i: "i \<in> set items" "prophet_type i = pt" "(mk, v) \<in> set (metrics i)"
    and a': "a = (scenario_number i, v)"
    unfolding set_points by blast
  from b obtain j w where j: "j \<in> set items" "prophet_type j = pt" "(mk, w) \<in> set (metrics j)"
    and b': "b = (scenario_number j, w)"
    unfolding set_points by blast
  from eq a' b' i(2) j(2) have "file_key i = file_key j"
    by (simp add: file_key_def)
  moreover from keys have "inj_on file_key (set items)"
    by (simp add: distinct_map)
  ultimately have ij: "i = j"
    using i(1) j(1) by (auto dest: inj_onD)
  from ms i(1) have "distinct (map fst (metrics i))" by blast
  with i(3) j(3) ij have "v = w"
    by (metis eq_key_imp_eq_value)
  with a' b' ij show "a = b" by simp
qed

lemma points_perm:
  "mset items1 = mset items2 \<Longrightarrow> mset (points items1 pt mk) = mset (points items2 pt mk)"
  unfolding points_def by (rule mset_concat_map_perm)

lemma series_of_reshape_perm:
  assumes "mset items1 = mset items2" "distinct (map file_key items1)"
    "\<forall>i\<in>set items1. distinct (map fst (metrics i))"
  shows "series_of (reshape items1) pt mk = series_of (reshape items2) pt mk"
  unfolding series_of_reshape
  using points_perm [OF assms(1)] inj_on_points [OF assms(2,3)]
  by (rule sort_key_eq_sort_key)

lemma plot_metric_cong:
  assumes "\<And>pt mk. series_of pd1 pt mk = series_of pd2 pt mk"
  shows "plot_metric pd1 types acc mk = plot_metric pd2 types acc mk"
proof -
  have "metric_lines pd1 types mk = metric_lines pd2 types mk"
    unfolding metric_lines_def assms ..
  then show ?thesis
    unfolding plot_metric_def by simp
qed

lemma plot_metrics_cong:
  assumes "\<And>pt mk. series_of pd1 pt mk = series_of pd2 pt mk"
  shows "foldl (plot_metric pd1 types) acc mks = foldl (plot_metric pd2 types) acc mks"
proof (induction mks arbitrary: acc)
  case Nil
  show ?case by simp
next
  case (Cons m mks)
  have "plot_metric pd1 types acc m = plot_metric pd2 types acc m"
    using assms by (rule plot_metric_cong)
  then show ?case
    unfolding foldl_Cons Cons.IH by simp
qed

lemma figures_main2:
  "figures (main2 flt exists read dir es) =
     (let items = fst (parse_entries flt exists read dir es)
      in if items = [] \<or> sort (map fst (reshape items)) = [] then None
         else Some (fst (foldl (plot_metric (reshape items) (sort (map fst (reshape items))))
                          ([], []) metric_keys)))"
  by (simp add: main2_def Let_def)

lemma main2_perm:
  assumes perm: "mset es1 = mset es2"
    and keys: "distinct (map file_key (fst (parse_entries flt exists read dir es1)))"
  shows "figures (main2 flt exists read dir es1) = figures (main2 flt exists read dir es2)"
proof -
  let ?i1 = "fst (parse_entries flt exists read dir es1)"
  let ?i2 = "fst (parse_entries flt exists read dir es2)"
  have items: "mset ?i1 = mset ?i2"
    unfolding parse_entries_items using perm by (rule mset_concat_map_perm)
  then have empty: "(?i1 = []) = (?i2 = [])"
    by (metis mset_zero_iff)
  have types: "sort (map fst (reshape ?i1)) = sort (map fst (reshape ?i2))"
    using items by (rule types_reshape_perm)
  have ms: "\<forall>i\<in>set ?i1. distinct (map fst (metrics i))"
    using distinct_all_parsed_metrics by blast
  have series: "series_of (reshape ?i1) pt mk = series_of (reshape ?i2) pt mk" for pt mk
    using items keys ms by (rule series_of_reshape_perm)
  have "foldl (plot_metric (reshape ?i1) (sort (map fst (reshape ?i2)))) ([], []) metric_keys
      = foldl (plot_metric (reshape ?i2) (sort (map fst (reshape ?i2)))) ([], []) metric_keys"
    using series by (rule plot_metrics_cong)
  then show ?thesis
    unfolding figures_main2 Let_def types empty by simp
qed

lemma main1_perm:
  assumes "mset g1 = mset g2"
  shows "main1 flt read g1 = main1 flt read g2"
proof -
  have p: "parse_files1 flt read g1 = parse_files1 flt read g2"
    using assms by (rule parse_files1_perm)
  from assms have e: "(g1 = []) = (g2 = [])"
    by (metis mset_zero_iff)
  show ?thesis
    unfolding main1_def p e ..
qed

lemma main1_sorted:
  assumes "main1 flt read g = Shown fig msgs"
  shows "sorted (protocols fig) \<and> sorted (scenarios fig)"
  using main1_ShownD [OF assms] by auto

lemma figure_shape:
  "fig \<in> set (fst (foldl (plot_metric pd types) acc mks)) \<Longrightarrow>
     fig \<in> set (fst acc) \<or>
     (\<exists>mk. lines fig = metric_lines pd types mk \<and>
           xticks fig = sort (remdups (concat (map (\<lambda>l. fst (snd l)) (lines fig)))))"
proof (induction mks arbitrary: acc)
  case Nil
  then show ?case by simp
next
  case (Cons m mks)
  from Cons.prems have "fig \<in> set (fst (foldl (plot_metric pd types) (plot_metric pd types acc m) mks))"
    by simp
  from Cons.IH [OF this] show ?case
    by (auto simp: plot_metric_def Let_def split: if_splits)
qed

lemma sorted_metric_lines:
  "sorted types \<Longrightarrow> sorted (map fst (metric_lines pd types mk))"
proof -
  assume "sorted types"
  then have "sorted (filter (\<lambda>pt. series_of pd pt mk \<noteq> []) types)"
    using sorted_filter [of "\<lambda>x. x" types] by simp
  moreover have "map fst (metric_lines pd types mk) = filter (\<lambda>pt. series_of pd pt mk \<noteq> []) types"
    by (simp add: metric_lines_def comp_def)
  ultimately show ?thesis by simp
qed

lemma sorted_line_scenarios:
  "l \<in> set (metric_lines (reshape items) types mk) \<Longrightarrow> sorted (fst (snd l))"
  by (auto simp: metric_lines_def series_of_reshape)

lemma main2_ShownD:
  assumes "main2 flt exists read dir es = Shown figs msgs"
  shows "figs = fst (foldl (plot_metric (reshape (fst (parse_entries flt exists read dir es)))
                       (sort (map fst (reshape (fst (parse_entries flt exists read dir es))))))
                     ([], []) metric_keys)"
  using assms by (auto simp: main2_def Let_def split: if_splits)

lemma main2_sorted:
  assumes "main2 flt exists read dir es = Shown figs msgs" "fig \<in> set figs"
  shows "sorted (map fst (lines fig)) \<and> (\<forall>l\<in>set (lines fig). sorted (fst (snd l))) \<and>
         sorted (xticks fig) \<and> distinct (xticks fig)"
proof -
  let ?items = "fst (parse_entries flt exists read dir es)"
  let ?types = "sort (map fst (reshape ?items))"
  from assms have "fig \<in> set (fst (foldl (plot_metric (reshape ?items) ?types) ([], []) metric_keys))"
    using main2_ShownD by blast
  from figure_shape [OF this] obtain mk where
    l: "lines fig = metric_lines (reshape ?items) ?types mk"
    and x: "xticks fig = sort (remdups (concat (map (\<lambda>l. fst (snd l)) (lines fig))))"
    by auto
  have "sorted (map fst (lines fig))"
    unfolding l by (rule sorted_metric_lines) simp
  moreover have "\<forall>l\<in>set (lines fig). sorted (fst (snd l))"
    unfolding l using sorted_line_scenarios by blast
  moreover have "sorted (xticks fig) \<and> distinct (xticks fig)"
    unfolding x by simp
  ultimately show ?thesis by blast
qed

text \<open>
  C3, as amended. In both scripts the group keys are drawn in ascending order and the
  scenario numbers of every series are ascending (in the second script the tick marks
  are ascending without repetition as well). The outcome of the glob-based script is
  the same for every order in which the files are found, since it sorts the file list
  before parsing. The figures of the script over a list of names are the same for
  every order of the list provided no two parsed files have the same type and the same
  scenario number; its sort of a series compares scenario numbers only and is stable,
  so points with the same scenario number stay in the order of the list.
\<close>

theorem ordering_deterministic:
  "(mset g1 = mset g2 \<longrightarrow> main1 flt read g1 = main1 flt read g2) \<and>
   (main1 flt read g = Shown fig1 msgs1 \<longrightarrow> sorted (protocols fig1) \<and> sorted (scenarios fig1)) \<and>
   (main2 flt exists read script_dir es = Shown figs msgs2 \<longrightarrow>
      (\<forall>fig\<in>set figs. sorted (map fst (lines fig)) \<and>
                       (\<forall>l\<in>set (lines fig). sorted (fst (snd l))) \<and>
                       sorted (xticks fig) \<and> distinct (xticks fig))) \<and>
   (mset es1 = mset es2 \<and>
    distinct (map file_key (fst (parse_entries flt exists read script_dir es1))) \<longrightarrow>
      figures (main2 flt exists read script_dir es1) = figures (main2 flt exists read script_dir es2))"
proof (intro conjI impI ballI; (elim conjE)?)
  show "main1 flt read g1 = main1 flt read g2" if "mset g1 = mset g2"
    using that by (rule main1_perm)
  show "sorted (protocols fig1)" and "sorted (scenarios fig1)"
    if "main1 flt read g = Shown fig1 msgs1"
    using main1_sorted [OF that] by simp_all
  show "sorted (map fst (lines fig))" and "sorted (xticks fig)" and "distinct (xticks fig)"
    if "main2 flt exists read script_dir es = Shown figs msgs2" "fig \<in> set figs" for fig
    using main2_sorted [OF that] by simp_all
  show "sorted (fst (snd l))"
    if "main2 flt exists read script_dir es = Shown figs msgs2" "fig \<in> set figs"
      "l \<in> set (lines fig)" for fig l
    using main2_sorted [OF that(1,2)] that(3) by simp
  show "figures (main2 flt exists read script_dir es1) = figures (main2 flt exists read script_dir es2)"
    if "mset es1 = mset es2"
      "distinct (map file_key (fst (parse_entries flt exists read script_dir es1)))"
    using that by (rule main2_perm)
qed

theorem ordering_deterministic_counterexample:
  "mset [''HaggleProphet100_MessageStatsReport.txt'', ''rerun/HaggleProphet100_MessageStatsReport.txt'']
     = mset [''rerun/HaggleProphet100_MessageStatsReport.txt'', ''HaggleProphet100_MessageStatsReport.txt''] \<and>
   figures (main2 example_float (\<lambda>p. True)
      (\<lambda>p. if p = ''/d/HaggleProphet100_MessageStatsReport.txt'' then Some [''delivery_prob: 0.5'']
            else Some [''delivery_prob: 0.25''])
      ''/d'' [''HaggleProphet100_MessageStatsReport.txt'', ''rerun/HaggleProphet100_MessageStatsReport.txt''])
     = Some [\<lparr>metric = ''delivery_prob'',
               lines = [(''Haggle Prophet'', [100, 100], [Fin (1 / 2), Fin (1 / 4)])],
               xticks = [100]\<rparr>] \<and>
   figures (main2 example_float (\<lambda>p. True)
      (\<lambda>p. if p = ''/d/HaggleProphet100_MessageStatsReport.txt'' then Some [''delivery_prob: 0.5'']
            else Some [''delivery_prob: 0.25''])
      ''/d'' [''rerun/HaggleProphet100_MessageStatsReport.txt'', ''HaggleProphet100_MessageStatsReport.txt''])
     = Some [\<lparr>metric = ''delivery_prob'',
               lines = [(''Haggle Prophet'', [100, 100], [Fin (1 / 4), Fin (1 / 2)])],
               xticks = [100]\<rparr>]"
proof -
  have "mset [''HaggleProphet100_MessageStatsReport.txt'', ''rerun/HaggleProphet100_MessageStatsReport.txt'']
     = mset [''rerun/HaggleProphet100_MessageStatsReport.txt'', ''HaggleProphet100_MessageStatsReport.txt'']"
    by (simp add: add_mset_commute)
  moreover have "figures (main2 example_float (\<lambda>p. True)
      (\<lambda>p. if p = ''/d/HaggleProphet100_MessageStatsReport.txt'' then Some [''delivery_prob: 0.5'']
            else Some [''delivery_prob: 0.25''])
      ''/d'' [''HaggleProphet100_MessageStatsReport.txt'', ''rerun/HaggleProphet100_MessageStatsReport.txt''])
     = Some [\<lparr>metric = ''delivery_prob'',
               lines = [(''Haggle Prophet'', [100, 100], [Fin (1 / 2), Fin (1 / 4)])],
               xticks = [100]\<rparr>]"
    by code_simp
  moreover have "figures (main2 example_float (\<lambda>p. True)
      (\<lambda>p. if p = ''/d/HaggleProphet100_MessageStatsReport.txt'' then Some [''delivery_prob: 0.5'']
            else Some [''delivery_prob: 0.25''])
      ''/d'' [''rerun/HaggleProphet100_MessageStatsReport.txt'', ''HaggleProphet100_MessageStatsReport.txt''])
     = Some [\<lparr>metric = ''delivery_prob'',
               lines = [(''Haggle Prophet'', [100, 100], [Fin (1 / 4), Fin (1 / 2)])],
               xticks = [100]\<rparr>]"
    by code_simp
  ultimately show ?thesis by blast
qed

theorem ordering_deterministic_witness:
  "main1 example_float (\<lambda>p. Some [''delivery_prob: 0.5''])
      [''./prophettuned_scenario2_MessageStatsReport.txt'',
       ''./prophettuned_scenario1_MessageStatsReport.txt'']
     = main1 example_float (\<lambda>p. Some [''delivery_prob: 0.5''])
      [''./prophettuned_scenario1_MessageStatsReport.txt'',
       ''./prophettuned_scenario2_MessageStatsReport.txt''] \<and>
   (\<exists>fig msgs.
      main1 example_float (\<lambda>p. Some [''delivery_prob: 0.5''])
        [''./prophettuned_scenario2_MessageStatsReport.txt'',
         ''./prophettuned_scenario1_MessageStatsReport.txt''] = Shown fig msgs \<and>
      scenarios fig = [1, 2] \<and> sorted (protocols fig) \<and> sorted (scenarios fig)) \<and>
   distinct (map file_key (fst (parse_entries example_float (\<lambda>p. True)
      (\<lambda>p. Some [''delivery_prob: 0.5'']) ''/d''
      [''HaggleProphet300_MessageStatsReport.txt'', ''HaggleProphet100_MessageStatsReport.txt'']))) \<and>
   figures (main2 example_float (\<lambda>p. True) (\<lambda>p. Some [''delivery_prob: 0.5'']) ''/d''
      [''HaggleProphet300_MessageStatsReport.txt'', ''HaggleProphet100_MessageStatsReport.txt''])
     = figures (main2 example_float (\<lambda>p. True) (\<lambda>p. Some [''delivery_prob: 0.5'']) ''/d''
      [''HaggleProphet100_MessageStatsReport.txt'', ''HaggleProphet300_MessageStatsReport.txt''])"
proof -
  let ?g1 = "[''./prophettuned_scenario2_MessageStatsReport.txt'',
       ''./prophettuned_scenario1_MessageStatsReport.txt'']"
  let ?g2 = "[''./prophettuned_scenario1_MessageStatsReport.txt'',
       ''./prophettuned_scenario2_MessageStatsReport.txt'']"
  let ?es1 = "[''HaggleProphet300_MessageStatsReport.txt'', ''HaggleProphet100_MessageStatsReport.txt'']"
  let ?es2 = "[''HaggleProphet100_MessageStatsReport.txt'', ''HaggleProphet300_MessageStatsReport.txt'']"
  let ?read = "\<lambda>p::string. Some [''delivery_prob: 0.5'']"
  have pg: "mset ?g1 = mset ?g2" and pe: "mset ?es1 = mset ?es2"
    by (simp_all add: add_mset_commute)
  have d: "distinct (map file_key (fst (parse_entries example_float (\<lambda>p. True) ?read ''/d'' ?es1)))"
    by code_simp
  have e: "map_option scenarios (figures (main1 example_float ?read ?g1)) = Some [1, 2]"
    by code_simp
  then obtain fig msgs where sh: "main1 example_float ?read ?g1 = Shown fig msgs"
    by (cases "main1 example_float ?read ?g1") auto
  with e have sc: "scenarios fig = [1, 2]" by simp
  note T = ordering_deterministic
    [where ?g1.0 = ?g1 and ?g2.0 = ?g2 and flt = example_float and read = ?read and g = ?g1
       and ?fig1.0 = fig and ?msgs1.0 = msgs and exists = "\<lambda>p. True" and script_dir = "''/d''"
       and ?es1.0 = ?es1 and ?es2.0 = ?es2]
  from T pg have a: "main1 example_float ?read ?g1 = main1 example_float ?read ?g2"
    by blast
  from T sh have b: "sorted (protocols fig) \<and> sorted (scenarios fig)"
    by blast
  from T pe d have c: "figures (main2 example_float (\<lambda>p. True) ?read ''/d'' ?es1)
     = figures (main2 example_float (\<lambda>p. True) ?read ''/d'' ?es2)"
    by blast
  from a b c d sh sc show ?thesis by blast
qed

end
